(* ===== verification/Prelude.thy ===== *)
theory Prelude
  imports Complex_Main "HOL-Library.Multiset"
begin

text \<open>
  Shared vocabulary of the civil-violence development: the cell type of the
  toroidal lattice, the bounds predicate, the named collections the component
  theories feed, and generic facts on lists, folds and counting that the
  engine proofs share.
\<close>

named_theorems model_defs "definitions of the model operations unfolded by the component proofs"
named_theorems wf_intros "introduction rules for the well-formedness invariants"

type_synonym cell = "int \<times> int"

text \<open>A cell \<open>(x, y)\<close> is in bounds when \<open>0 \<le> x < W\<close> and \<open>0 \<le> y < H\<close>:
  the index range of the Python \<open>grid\<close> and \<open>neighborhoods\<close> lists of lists.\<close>

definition in_bounds :: "int \<Rightarrow> int \<Rightarrow> cell \<Rightarrow> bool" where
  "in_bounds W H c \<longleftrightarrow> 0 \<le> fst c \<and> fst c < W \<and> 0 \<le> snd c \<and> snd c < H"

lemma in_bounds_mod [simp]:
  "0 < W \<Longrightarrow> 0 < H \<Longrightarrow> in_bounds W H (a mod W, b mod H)"
  by (simp add: in_bounds_def)

lemma in_bounds_mod_self:
  "in_bounds W H (x, y) \<Longrightarrow> x mod W = x \<and> y mod H = y"
  by (simp add: in_bounds_def)

subsection \<open>Swapping two list positions\<close>

text \<open>\<open>x[i], x[j] = x[j], x[i]\<close> in Python.\<close>

definition swap :: "nat \<Rightarrow> nat \<Rightarrow> 'a list \<Rightarrow> 'a list" where
  "swap i j xs = xs[i := xs ! j, j := xs ! i]"

lemma length_swap [simp]: "length (swap i j xs) = length xs"
  by (simp add: swap_def)

lemma mset_swap_eq [simp]:
  "i < length xs \<Longrightarrow> j < length xs \<Longrightarrow> mset (swap i j xs) = mset xs"
  by (simp add: swap_def mset_swap)

subsection \<open>Folds over the entity list\<close>

text \<open>An invariant kept by every iteration of a loop body is kept by the loop.\<close>

lemma fold_invariant:
  assumes "P s" and "\<And>x s. x \<in> set xs \<Longrightarrow> P s \<Longrightarrow> P (f x s)"
  shows "P (fold f xs s)"
  using assms by (induction xs arbitrary: s) auto

text \<open>A quantity that no iteration changes under an invariant is unchanged by the loop.\<close>

lemma fold_frame:
  assumes "P s"
    and "\<And>x s. x \<in> set xs \<Longrightarrow> P s \<Longrightarrow> P (f x s)"
    and "\<And>x s. x \<in> set xs \<Longrightarrow> P s \<Longrightarrow> g (f x s) = g s"
  shows "g (fold f xs s) = g s"
  using assms by (induction xs arbitrary: s) auto

lemma find_Some_holds: "find P xs = Some x \<Longrightarrow> P x \<and> x \<in> set xs"
  by (auto simp: find_Some_iff)

subsection \<open>Counting\<close>

lemma filter_remove1_other: "\<not> P x \<Longrightarrow> filter P (remove1 x xs) = filter P xs"
  by (induction xs) auto

lemma length_filter_remove1:
  "P x \<Longrightarrow> x \<in> set xs \<Longrightarrow> length (filter P (remove1 x xs)) = length (filter P xs) - 1"
proof (induction xs)
  case Nil
  then show ?case by simp
next
  case (Cons a xs)
  show ?case
  proof (cases "x = a")
    case True
    with Cons.prems show ?thesis by simp
  next
    case False
    with Cons have "length (filter P (remove1 x xs)) = length (filter P xs) - 1" "x \<in> set xs" by simp_all
    moreover have "0 < length (filter P xs)"
      using \<open>x \<in> set xs\<close> Cons.prems(1) by (auto simp: filter_empty_conv)
    ultimately show ?thesis using False by simp
  qed
qed

lemma length_filter_mset_cong:
  "mset xs = mset ys \<Longrightarrow> length (filter P xs) = length (filter P ys)"
  by (metis mset_filter size_mset)

lemma length_filter_conj_split:
  "length (filter P xs) = length (filter (\<lambda>x. P x \<and> Q x) xs) + length (filter (\<lambda>x. P x \<and> \<not> Q x) xs)"
  by (induction xs) auto

subsection \<open>Lists updated in place\<close>

lemma list_all_update_same: "list_all P xs \<Longrightarrow> P x \<Longrightarrow> list_all P (xs[i := x])"
  by (auto simp: list_all_iff dest: subsetD[OF set_update_subset_insert])

lemma map_update_same:
  "i < length xs \<Longrightarrow> f x = f (xs ! i) \<Longrightarrow> map f (xs[i := x]) = map f xs"
  by (metis list_update_id map_update nth_map)

lemma length_filter_nth_upt:
  "length (filter (\<lambda>i. P (xs ! i)) [0..<length xs]) = length (filter P xs)"
proof -
  have "filter P (map ((!) xs) [0..<length xs]) = map ((!) xs) (filter (\<lambda>i. P (xs ! i)) [0..<length xs])"
    by (simp add: filter_map comp_def)
  then have "length (filter P xs) = length (filter (\<lambda>i. P (xs ! i)) [0..<length xs])"
    by (metis length_map map_nth)
  then show ?thesis by simp
qed

end
