(* ===== verification/Rand.thy ===== *)
theory Rand
  imports Prelude
begin

text \<open>
  The random source. Every variant draws all of its randomness from Python's
  module-level \<open>random\<close> generator: \<open>random.shuffle\<close>, \<open>random.choice\<close> and
  \<open>random.randint\<close>, all of which reduce to \<open>_randbelow(n)\<close>. The generator is
  modelled as a seeded stream of draws \<open>draws\<close> with a read position \<open>rpos\<close>;
  \<open>randbelow n\<close> reads the next draw reduced modulo \<open>n\<close>. A run is then a
  function of the stream, so it is reproducible for a fixed seed, and every
  theorem quantified over the stream holds for every outcome of the random
  choices. The reduction modulo \<open>n\<close> stands for CPython's rejection sampling
  (which yields every value below \<open>n\<close>); the distribution is not modelled.
\<close>

record rng =
  draws :: "nat \<Rightarrow> nat"
  rpos :: nat

definition randbelow :: "nat \<Rightarrow> rng \<Rightarrow> nat \<times> rng" where
  "randbelow n r = (draws r (rpos r) mod n, r\<lparr>rpos := Suc (rpos r)\<rparr>)"

text \<open>\<open>random.choice(seq)\<close> is \<open>seq[_randbelow(len(seq))]\<close>; on an empty sequence
  Python raises \<open>IndexError\<close>. Every call site of the program guards the call with
  \<open>if seq:\<close>, so the model is only ever applied to non-empty lists
  (\<open>choice_mem\<close> below is the fact the call sites use).\<close>

definition choice :: "'a list \<Rightarrow> rng \<Rightarrow> 'a \<times> rng" where
  "choice xs r = (let (j, r') = randbelow (length xs) r in (xs ! j, r'))"

text \<open>\<open>random.randint(a, b)\<close> is \<open>randrange(a, b + 1)\<close>, i.e.
  \<open>a + _randbelow(b - a + 1)\<close>.\<close>

definition randint :: "int \<Rightarrow> int \<Rightarrow> rng \<Rightarrow> int \<times> rng" where
  "randint a b r = (let (j, r') = randbelow (nat (b - a + 1)) r in (a + int j, r'))"

text \<open>\<open>random.shuffle(x)\<close>, the Fisher-Yates loop of CPython:
  \<^verbatim>\<open>for i in reversed(range(1, len(x))):
    j = randbelow(i + 1)
    x[i], x[j] = x[j], x[i]\<close>
  \<open>shuffle_loop m\<close> performs the iterations for \<open>i = m, m - 1, \<dots>, 1\<close>.\<close>

fun shuffle_loop :: "nat \<Rightarrow> 'a list \<Rightarrow> rng \<Rightarrow> 'a list \<times> rng" where
  "shuffle_loop 0 xs r = (xs, r)"
| "shuffle_loop (Suc m) xs r =
     (let (j, r') = randbelow (Suc (Suc m)) r in shuffle_loop m (swap (Suc m) j xs) r')"

definition shuffle :: "'a list \<Rightarrow> rng \<Rightarrow> 'a list \<times> rng" where
  "shuffle xs r = shuffle_loop (length xs - 1) xs r"

subsection \<open>Properties of the draws\<close>

lemma randbelow_lt: "0 < n \<Longrightarrow> fst (randbelow n r) < n"
  by (simp add: randbelow_def)

lemma randbelow_draws [simp]: "draws (snd (randbelow n r)) = draws r"
  by (simp add: randbelow_def)

lemma randbelow_rpos [simp]: "rpos (snd (randbelow n r)) = Suc (rpos r)"
  by (simp add: randbelow_def)

text \<open>Every value below \<open>n\<close> is drawn by some stream: no outcome is excluded.\<close>

lemma randbelow_surj: "j < n \<Longrightarrow> fst (randbelow n \<lparr>draws = (\<lambda>_. j), rpos = p\<rparr>) = j"
  by (simp add: randbelow_def)

lemma choice_mem: "xs \<noteq> [] \<Longrightarrow> fst (choice xs r) \<in> set xs"
  by (simp add: choice_def randbelow_def split_def Let_def)

lemma choice_draws [simp]: "draws (snd (choice xs r)) = draws r"
  by (simp add: choice_def split_def Let_def)

lemma choice_surj:
  "i < length xs \<Longrightarrow> fst (choice xs \<lparr>draws = (\<lambda>_. i), rpos = p\<rparr>) = xs ! i"
  by (simp add: choice_def randbelow_def)

lemma randint_bounds: "a \<le> b \<Longrightarrow> a \<le> fst (randint a b r) \<and> fst (randint a b r) \<le> b"
proof -
  assume ab: "a \<le> b"
  have "fst (randbelow (nat (b - a + 1)) r) < nat (b - a + 1)"
    using ab by (intro randbelow_lt) simp
  then show ?thesis
    using ab by (simp add: randint_def split_def Let_def)
qed

lemma shuffle_loop_mset:
  "m < length xs \<Longrightarrow> mset (fst (shuffle_loop m xs r)) = mset xs"
proof (induction m xs r rule: shuffle_loop.induct)
  case (1 xs r)
  then show ?case by simp
next
  case (2 m xs r)
  let ?j = "fst (randbelow (Suc (Suc m)) r)"
  have j: "?j < Suc (Suc m)" by (rule randbelow_lt) simp
  have "mset (fst (shuffle_loop m (swap (Suc m) ?j xs) (snd (randbelow (Suc (Suc m)) r))))
        = mset (swap (Suc m) ?j xs)"
    using "2.prems" by (intro "2.IH") (auto simp: split_def Let_def)
  also have "\<dots> = mset xs"
    using "2.prems" j by simp
  finally show ?case by (simp add: split_def Let_def)
qed

lemma shuffle_loop_draws [simp]: "draws (snd (shuffle_loop m xs r)) = draws r"
  by (induction m xs r rule: shuffle_loop.induct) (simp_all add: split_def Let_def)

lemma shuffle_loop_rpos: "rpos (snd (shuffle_loop m xs r)) = rpos r + m"
  by (induction m xs r rule: shuffle_loop.induct) (simp_all add: split_def Let_def)

lemma shuffle_mset: "mset (fst (shuffle xs r)) = mset xs"
proof (cases xs)
  case Nil
  then show ?thesis by (simp add: shuffle_def)
next
  case (Cons a as)
  then show ?thesis by (simp add: shuffle_def shuffle_loop_mset del: shuffle_loop.simps)
qed

lemma shuffle_set [simp]: "set (fst (shuffle xs r)) = set xs"
  using shuffle_mset by (rule mset_eq_setD)

lemma shuffle_length [simp]: "length (fst (shuffle xs r)) = length xs"
  using shuffle_mset by (rule mset_eq_length)

lemma shuffle_distinct [simp]: "distinct (fst (shuffle xs r)) = distinct xs"
  using shuffle_mset by (rule mset_eq_imp_distinct_iff)

lemma shuffle_draws [simp]: "draws (snd (shuffle xs r)) = draws r"
  by (simp add: shuffle_def)

text \<open>\<open>random.shuffle\<close> permutes: the shuffled list has the same elements with
  the same multiplicities, and the shuffle reads exactly \<open>len(x) - 1\<close> draws of the
  stream.\<close>

lemma shuffle_permutes:
  "mset (fst (shuffle xs r)) = mset xs \<and> draws (snd (shuffle xs r)) = draws r \<and>
   rpos (snd (shuffle xs r)) = rpos r + (length xs - 1)"
  using shuffle_mset[of xs r] by (simp add: shuffle_def shuffle_loop_rpos)

end
