(* ===== verification/Neighborhood.thy ===== *)
theory Neighborhood
  imports Prelude
begin

text \<open>
  The spatial index. The grid-backed variants (\<open>rep2.py\<close>, \<open>extension1.py\<close>,
  \<open>extension2.py\<close>, \<open>model_v4_lc_extension2.py\<close>, \<open>model_v5.5_lwz copy.py\<close>)
  precompute in \<open>compute_neighborhoods\<close> the Euclidean disk of radius
  \<open>vision\<close> around every cell, wrapped on the torus; \<open>model_v4.5_lwz.py\<close>
  instead tests membership on the fly with \<open>is_neighbor\<close>, a Chebyshev box
  under the toroidal distance. Both are modelled here, with the characterisation
  of their members, bounds, symmetry, wrap-around and (for the disk) the absence
  of duplicates when the radius is below half the grid.
\<close>

text \<open>\<open>compute_neighborhoods\<close>, the body for one cell \<open>(x, y)\<close>: the two nested
  \<open>for\<close> loops over \<open>range(-vision, vision + 1)\<close>, the test
  \<open>dx ** 2 + dy ** 2 <= vision ** 2\<close> and the append of the wrapped cell.\<close>

definition neighborhood :: "int \<Rightarrow> int \<Rightarrow> int \<Rightarrow> cell \<Rightarrow> cell list" where
  "neighborhood W H v c =
     concat (map (\<lambda>dx. concat (map (\<lambda>dy.
        if dx ^ 2 + dy ^ 2 \<le> v ^ 2 then [((fst c + dx) mod W, (snd c + dy) mod H)] else [])
      [-v..v])) [-v..v])"

text \<open>The table \<open>self.neighborhoods\<close>: filled for the cells of the grid, the
  initial empty list everywhere else.\<close>

definition compute_neighborhoods :: "int \<Rightarrow> int \<Rightarrow> int \<Rightarrow> cell \<Rightarrow> cell list" where
  "compute_neighborhoods W H v = (\<lambda>c. if in_bounds W H c then neighborhood W H v c else [])"

text \<open>\<open>is_neighbor\<close> of \<open>model_v4.5_lwz.py\<close>: toroidal distance on each axis
  at most \<open>vision\<close>.\<close>

definition is_neighbor :: "int \<Rightarrow> int \<Rightarrow> int \<Rightarrow> cell \<Rightarrow> cell \<Rightarrow> bool" where
  "is_neighbor W H v c d =
     (let dx = \<bar>fst c - fst d\<bar>; dy = \<bar>snd c - snd d\<bar>;
          distance_x = min dx (W - dx); distance_y = min dy (H - dy)
      in distance_x \<le> v \<and> distance_y \<le> v)"

text \<open>The offsets kept by the disk test, in the order the loops visit them.\<close>

definition disk_offsets :: "int \<Rightarrow> (int \<times> int) list" where
  "disk_offsets v = filter (\<lambda>(dx, dy). dx ^ 2 + dy ^ 2 \<le> v ^ 2) (List.product [-v..v] [-v..v])"

subsection \<open>The disk neighbourhood as a map over the offsets\<close>

lemma concat_map_if_singleton:
  "concat (map (\<lambda>y. if P y then [f y] else []) ys) = map f (filter P ys)"
  by (induction ys) auto

lemma neighborhood_disk_offsets:
  "neighborhood W H v c = map (\<lambda>(dx, dy). ((fst c + dx) mod W, (snd c + dy) mod H)) (disk_offsets v)"
  by (simp add: neighborhood_def disk_offsets_def concat_map_if_singleton product_concat_map
      filter_concat map_concat filter_map comp_def)

lemma set_disk_offsets:
  "set (disk_offsets v) = {(dx, dy). -v \<le> dx \<and> dx \<le> v \<and> -v \<le> dy \<and> dy \<le> v \<and> dx ^ 2 + dy ^ 2 \<le> v ^ 2}"
  by (auto simp: disk_offsets_def)

lemma distinct_disk_offsets: "distinct (disk_offsets v)"
  by (simp add: disk_offsets_def distinct_product)

lemma mem_neighborhood:
  "d \<in> set (neighborhood W H v c) \<longleftrightarrow>
     (\<exists>dx dy. -v \<le> dx \<and> dx \<le> v \<and> -v \<le> dy \<and> dy \<le> v \<and> dx ^ 2 + dy ^ 2 \<le> v ^ 2 \<and>
              d = ((fst c + dx) mod W, (snd c + dy) mod H))"
  by (auto simp: neighborhood_disk_offsets set_disk_offsets)

lemma length_neighborhood: "length (neighborhood W H v c) = length (disk_offsets v)"
  by (simp add: neighborhood_disk_offsets)

lemma neighborhood_in_bounds:
  "0 < W \<Longrightarrow> 0 < H \<Longrightarrow> d \<in> set (neighborhood W H v c) \<Longrightarrow> in_bounds W H d"
  by (auto simp: mem_neighborhood)

lemma self_in_neighborhood:
  assumes "0 \<le> v" and "in_bounds W H c"
  shows "c \<in> set (neighborhood W H v c)"
proof -
  have "c = ((fst c + 0) mod W, (snd c + 0) mod H)"
    using assms(2) by (simp add: in_bounds_def)
  then show ?thesis
    using assms(1) unfolding mem_neighborhood by (intro exI[of _ 0]) auto
qed

lemma neighborhood_sym:
  assumes c: "in_bounds W H c" and d: "d \<in> set (neighborhood W H v c)"
  shows "c \<in> set (neighborhood W H v d)"
proof -
  obtain dx dy where b: "-v \<le> dx" "dx \<le> v" "-v \<le> dy" "dy \<le> v" "dx ^ 2 + dy ^ 2 \<le> v ^ 2"
    and deq: "d = ((fst c + dx) mod W, (snd c + dy) mod H)"
    using d unfolding mem_neighborhood by blast
  have "fst c = ((fst c + dx) mod W + - dx) mod W" "snd c = ((snd c + dy) mod H + - dy) mod H"
    using c by (simp_all add: mod_diff_left_eq in_bounds_def)
  then have "c = ((fst d + - dx) mod W, (snd d + - dy) mod H)"
    using deq by (simp add: prod_eq_iff)
  moreover have "(- dx) ^ 2 + (- dy) ^ 2 \<le> v ^ 2"
    using b(5) by simp
  ultimately show ?thesis
    using b unfolding mem_neighborhood by (intro exI[of _ "- dx"] exI[of _ "- dy"]) auto
qed

lemma mod_offset_inj:
  fixes W :: int
  assumes "(x + a) mod W = (x + b) mod W" and "\<bar>a\<bar> \<le> v" and "\<bar>b\<bar> \<le> v" and "2 * v < W"
  shows "a = b"
proof (rule ccontr)
  assume "a \<noteq> b"
  have "W dvd (x + a) - (x + b)"
    using assms(1) by (simp add: mod_eq_dvd_iff)
  then have "W dvd a - b" by simp
  then have "\<bar>W\<bar> \<le> \<bar>a - b\<bar>"
    using \<open>a \<noteq> b\<close> by (intro dvd_imp_le_int) simp_all
  then show False using assms(2-4) by linarith
qed

lemma neighborhood_wrap_diagonal:
  assumes "2 \<le> v" and "0 < W" and "0 < H"
  shows "(W - 1, H - 1) \<in> set (neighborhood W H v (0, 0))"
proof -
  have "((0 + -1) mod W, (0 + -1) mod H) = (W - 1, H - 1)"
    using assms(2,3) by (simp add: zmod_minus1)
  moreover have "(-1::int) ^ 2 + (-1) ^ 2 \<le> v ^ 2"
    using assms(1) power_mono[of 2 v 2] by simp
  ultimately show ?thesis
    using assms(1) unfolding mem_neighborhood by (intro exI[of _ "-1"]) auto
qed

lemma neighborhood_radius1_no_diagonal:
  "(W - 1, H - 1) \<notin> set (neighborhood W H 1 (0, 0))" if "3 \<le> W" "3 \<le> H"
proof
  assume "(W - 1, H - 1) \<in> set (neighborhood W H 1 (0, 0))"
  then obtain dx dy where b: "-1 \<le> dx" "dx \<le> 1" "-1 \<le> dy" "dy \<le> 1" "dx ^ 2 + dy ^ 2 \<le> (1::int)"
    and e: "W - 1 = dx mod W" "H - 1 = dy mod H"
    unfolding mem_neighborhood by auto
  have "dx = -1"
    using b(1,2) e(1) that(1) by (cases "dx = 0"; cases "dx = 1") auto
  moreover have "dy = -1"
    using b(3,4) e(2) that(2) by (cases "dy = 0"; cases "dy = 1") auto
  ultimately show False using b(5) by simp
qed

subsection \<open>The precomputed table\<close>

lemma compute_neighborhoods_in_bounds:
  "0 < W \<Longrightarrow> 0 < H \<Longrightarrow> d \<in> set (compute_neighborhoods W H v c) \<Longrightarrow> in_bounds W H d"
  by (auto simp: compute_neighborhoods_def neighborhood_in_bounds split: if_splits)

lemma self_in_compute_neighborhoods:
  "0 \<le> v \<Longrightarrow> in_bounds W H c \<Longrightarrow> c \<in> set (compute_neighborhoods W H v c)"
  by (simp add: compute_neighborhoods_def self_in_neighborhood)

subsection \<open>Properties\<close>

text \<open>C10. Every cell of the grid is in its own disk neighbourhood; every member of
  a neighbourhood is on the grid; and membership is symmetric.\<close>

theorem neighborhood_members:
  assumes "0 < W" and "0 < H" and "0 \<le> v" and "in_bounds W H c"
  shows "c \<in> set (neighborhood W H v c) \<and>
    (\<forall>d \<in> set (neighborhood W H v c). in_bounds W H d \<and> c \<in> set (neighborhood W H v d))"
  using assms self_in_neighborhood neighborhood_in_bounds neighborhood_sym by blast

theorem neighborhood_members_witness:
  "0 < (40::int) \<and> 0 < (40::int) \<and> 0 \<le> (7::int) \<and> in_bounds 40 40 (0, 0) \<and>
   (0, 0) \<in> set (neighborhood 40 40 7 (0, 0))"
  using neighborhood_members[of 40 40 7 "(0, 0)"] by (simp add: in_bounds_def)

text \<open>C11. With a radius below half the grid on both axes the wrapped disk has no
  duplicate cells, so no neighbour is counted twice (spec section 7), and it has as
  many cells as the disk has offsets (149 for vision 7).\<close>

theorem neighborhood_distinct_size:
  assumes "2 * v < W" and "2 * v < H"
  shows "distinct (neighborhood W H v c) \<and> length (neighborhood W H v c) = length (disk_offsets v)"
proof
  show "distinct (neighborhood W H v c)"
    unfolding neighborhood_disk_offsets distinct_map
  proof
    show "distinct (disk_offsets v)" by (rule distinct_disk_offsets)
    show "inj_on (\<lambda>(dx, dy). ((fst c + dx) mod W, (snd c + dy) mod H)) (set (disk_offsets v))"
      using assms by (auto simp: inj_on_def set_disk_offsets)
        (auto intro: mod_offset_inj[where v = v] simp: abs_le_iff)
  qed
  show "length (neighborhood W H v c) = length (disk_offsets v)"
    by (rule length_neighborhood)
qed

theorem neighborhood_distinct_size_witness:
  "2 * 7 < (40::int) \<and> distinct (neighborhood 40 40 7 (0, 0)) \<and>
   length (neighborhood 40 40 7 (0, 0)) = length (disk_offsets 7)"
  using neighborhood_distinct_size[of 7 40 40 "(0, 0)"] by simp

text \<open>C12. Wrap-around: with vision 1 the disk of \<open>(0, 0)\<close> wraps to \<open>(W - 1, 0)\<close> but
  does not contain the diagonal corner \<open>(W - 1, H - 1)\<close>, which it contains from
  vision 2 on; the Chebyshev test \<open>is_neighbor\<close> of \<open>model_v4.5_lwz.py\<close> contains it
  from vision 1 on. Spec section 8 expects the corner for every vision of at least 1.\<close>

theorem neighborhood_wrap_radius:
  assumes "3 \<le> W" and "3 \<le> H"
  shows "(W - 1, 0) \<in> set (neighborhood W H 1 (0, 0)) \<and>
    (W - 1, H - 1) \<notin> set (neighborhood W H 1 (0, 0)) \<and>
    (\<forall>v. 2 \<le> v \<longrightarrow> (W - 1, H - 1) \<in> set (neighborhood W H v (0, 0))) \<and>
    (\<forall>v. 1 \<le> v \<longrightarrow> is_neighbor W H v (0, 0) (W - 1, H - 1))"
proof (intro conjI allI impI)
  have "((0 + -1) mod W, (0 + 0) mod H) = (W - 1, 0)"
    using assms by (simp add: zmod_minus1)
  then show "(W - 1, 0) \<in> set (neighborhood W H 1 (0, 0))"
    unfolding mem_neighborhood by (intro exI[of _ "-1"] exI[of _ 0]) simp
  show "(W - 1, H - 1) \<notin> set (neighborhood W H 1 (0, 0))"
    using assms by (rule neighborhood_radius1_no_diagonal)
  fix v :: int
  show "2 \<le> v \<Longrightarrow> (W - 1, H - 1) \<in> set (neighborhood W H v (0, 0))"
    using assms by (intro neighborhood_wrap_diagonal) simp_all
  show "1 \<le> v \<Longrightarrow> is_neighbor W H v (0, 0) (W - 1, H - 1)"
    using assms by (simp add: is_neighbor_def Let_def)
qed

theorem neighborhood_wrap_radius_witness:
  "3 \<le> (40::int) \<and> (39, 0) \<in> set (neighborhood 40 40 1 (0, 0)) \<and>
   (39, 39) \<notin> set (neighborhood 40 40 1 (0, 0)) \<and> (39, 39) \<in> set (neighborhood 40 40 7 (0, 0))"
  using neighborhood_wrap_radius[of 40 40] by simp

end
