(* ===== verification/Rules.thy ===== *)
theory Rules
  imports Prelude
begin

text \<open>
  The behaviour rules, the pure arithmetic of the model, as the variants write it
  inline in \<open>determine_behavior\<close>, \<open>estimate_arrest_probability\<close> and the
  legitimacy decay of \<open>rep2.py\<close>. Python floats are modelled as exact reals:
  the rounding of IEEE doubles is not modelled. \<open>math.floor(cops / (active + 1))\<close>
  is kept as the floor of a real quotient and shown equal to integer division.
\<close>

text \<open>\<open>grievance = agent.hardship * (1 - self.gov_legitimacy)\<close>\<close>

definition grievance :: "real \<Rightarrow> real \<Rightarrow> real" where
  "grievance h L = h * (1 - L)"

text \<open>\<open>1 - math.exp(-self.k * math.floor(cops_count / (active_agents_count + 1)))\<close>\<close>

definition arrest_probability :: "real \<Rightarrow> nat \<Rightarrow> nat \<Rightarrow> real" where
  "arrest_probability k cops act = 1 - exp (- k * of_int \<lfloor>real cops / real (act + 1)\<rfloor>)"

text \<open>\<open>grievance - (agent.risk_aversion * arrest_probability) > 0.1\<close>\<close>

definition activates :: "real \<Rightarrow> real \<Rightarrow> real \<Rightarrow> bool" where
  "activates g ra p \<longleftrightarrow> g - ra * p > 0.1"

text \<open>\<open>if self.gov_legitimacy > 0: self.gov_legitimacy -= 0.0045\<close> (\<open>rep2.py\<close>)\<close>

definition decay_legitimacy :: "real \<Rightarrow> real" where
  "decay_legitimacy L = (if L > 0 then L - 0.0045 else L)"

subsection \<open>The floor of the cop ratio\<close>

lemma floor_ratio_div: "\<lfloor>real c / real (a + 1)\<rfloor> = int (c div (a + 1))"
  by (metis floor_divide_of_nat_eq)

lemma arrest_probability_div:
  "arrest_probability k c a = 1 - exp (- k * real (c div (a + 1)))"
  unfolding arrest_probability_def floor_ratio_div by simp

lemma arrest_probability_outnumbered:
  "c < a + 1 \<Longrightarrow> arrest_probability k c a = 0"
  by (simp add: arrest_probability_div)

lemma arrest_probability_ratio1:
  "a + 1 \<le> c \<Longrightarrow> c < 2 * (a + 1) \<Longrightarrow> arrest_probability k c a = 1 - exp (- k)"
proof -
  assume "a + 1 \<le> c" "c < 2 * (a + 1)"
  then have "c div (a + 1) = 1"
    by (simp add: div_nat_eqI)
  then show ?thesis by (simp add: arrest_probability_div)
qed

lemma arrest_probability_range:
  "0 \<le> k \<Longrightarrow> 0 \<le> arrest_probability k c a \<and> arrest_probability k c a < 1"
  by (simp add: arrest_probability_div)

lemma arrest_probability_mono_cops:
  assumes "0 \<le> k" and "c \<le> c'"
  shows "arrest_probability k c a \<le> arrest_probability k c' a"
proof -
  have "real (c div (a + 1)) \<le> real (c' div (a + 1))"
    using assms(2) by (simp add: div_le_mono)
  then have "- k * real (c' div (a + 1)) \<le> - k * real (c div (a + 1))"
    using assms(1) by (simp add: mult_left_mono)
  then show ?thesis by (simp add: arrest_probability_div)
qed

lemma arrest_probability_antimono_active:
  assumes "0 \<le> k" and "a \<le> a'"
  shows "arrest_probability k c a' \<le> arrest_probability k c a"
proof -
  have "c div (a' + 1) \<le> c div (a + 1)"
    using assms(2) by (simp add: div_le_mono2)
  then have "real (c div (a' + 1)) \<le> real (c div (a + 1))" by simp
  then have "- k * real (c div (a + 1)) \<le> - k * real (c div (a' + 1))"
    using assms(1) by (simp add: mult_left_mono)
  then show ?thesis by (simp add: arrest_probability_div)
qed

subsection \<open>Grievance and activation\<close>

lemma grievance_range:
  "0 \<le> h \<Longrightarrow> h \<le> 1 \<Longrightarrow> 0 \<le> L \<Longrightarrow> L \<le> 1 \<Longrightarrow> 0 \<le> grievance h L \<and> grievance h L \<le> 1"
  by (simp add: grievance_def mult_le_one)

lemma activates_no_risk: "activates g ra 0 \<longleftrightarrow> g > 0.1"
  by (simp add: activates_def)

lemma activates_le_grievance:
  "0 \<le> ra \<Longrightarrow> 0 \<le> p \<Longrightarrow> activates g ra p \<Longrightarrow> g > 0.1"
  unfolding activates_def using mult_nonneg_nonneg[of ra p] by linarith

subsection \<open>Properties\<close>


text \<open>C8. For a non-negative constant \<open>k\<close> the arrest probability is a probability
  strictly below 1, non-decreasing in the number of cops and non-increasing in the
  number of active agents.\<close>

theorem arrest_probability_bounds:
  assumes "0 \<le> k"
  shows "0 \<le> arrest_probability k c a \<and> arrest_probability k c a < 1 \<and>
    (c \<le> c' \<longrightarrow> arrest_probability k c a \<le> arrest_probability k c' a) \<and>
    (a \<le> a' \<longrightarrow> arrest_probability k c a' \<le> arrest_probability k c a)"
  using assms arrest_probability_range arrest_probability_mono_cops arrest_probability_antimono_active
  by blast

theorem arrest_probability_bounds_witness:
  "0 \<le> (2.3::real) \<and> 0 \<le> arrest_probability 2.3 3 2 \<and> arrest_probability 2.3 3 2 < 1 \<and>
   arrest_probability 2.3 3 2 \<le> arrest_probability 2.3 6 2"
  using arrest_probability_bounds[of "2.3" 3 2 6 2] by simp

end
