(* ===== verification/Grid_Model.thy ===== *)
theory Grid_Model
  imports Rand Neighborhood Rules
begin

text \<open>
  The entity store and the per-entity operations of the grid-backed variants
  (\<open>scripts/replication/rep2.py\<close>, \<open>scripts/extension1/extension1.py\<close>,
  \<open>scripts/extension2/extension2.py\<close>; \<open>src/model_v4_lc_extension2.py\<close> has
  the code of \<open>extension1.py\<close>). A \<open>Turtle\<close> object is a \<open>turtle\<close> record; the
  Python heap of turtles is the map \<open>turtles\<close> from \<open>agent_id\<close> to record, and the
  list \<open>self.entities\<close> and the cells of \<open>self.grid\<close> hold identifiers, which is
  how the objects are shared between the two. The three variants differ in two
  places, chosen by \<open>variant\<close>: the grievance reads \<open>adjusted_hardship\<close> in
  \<open>extension1.py\<close> and \<open>hardship\<close> elsewhere, and an arrest draws the jail term
  with \<open>random.randint(0, max_jail_term)\<close> in \<open>extension1.py\<close> and sets the
  constant 1000 in \<open>rep2.py\<close> and \<open>extension2.py\<close>.
\<close>

datatype entity_type = AGENT | COP

record turtle =
  agent_id :: nat
  etype :: entity_type
  turtle_vision :: int
  risk_aversion :: real
  hardship :: real
  adjusted_hardship :: real
  active :: bool
  jail_term :: nat
  position :: cell

datatype variant = Rep2 | Ext1 | Ext2

record model =
  width :: int
  height :: int
  grid :: "cell \<Rightarrow> nat option"
  vision :: int
  k_param :: real
  gov_legitimacy :: real
  max_jail_term :: nat
  neighbor_influence_percentage :: real
  entities :: "nat list"
  turtles :: "nat \<Rightarrow> turtle"
  neighborhoods :: "cell \<Rightarrow> cell list"
  quiet_data :: "nat list"
  jail_data :: "nat list"
  active_data :: "nat list"
  cop_data :: "nat list"
  tick :: nat
  rs :: rng

subsection \<open>Movement\<close>

text \<open>A target cell of \<open>move_agent\<close>: empty, or holding a turtle with a positive
  jail term.\<close>

definition candidate :: "model \<Rightarrow> cell \<Rightarrow> bool" where
  "candidate s c = (case grid s c of None \<Rightarrow> True | Some j \<Rightarrow> 0 < jail_term (turtles s j))"

definition move_agent :: "model \<Rightarrow> nat \<Rightarrow> model" where
  "move_agent s i =
    (let t = turtles s i in
     if 0 < jail_term t then s
     else
       let s1 = s\<lparr>grid := (grid s)(position t := None)\<rparr>;
           potential_positions = filter (candidate s1) (neighborhoods s1 (position t))
       in if potential_positions = [] then s1
          else
            let (c, r) = choice potential_positions (rs s1)
            in s1\<lparr>rs := r, grid := (grid s1)(c \<mapsto> i),
                  turtles := (turtles s1)(i := t\<lparr>position := c\<rparr>)\<rparr>)"

subsection \<open>Arrest probability and activation\<close>

text \<open>One iteration of the loop of \<open>estimate_arrest_probability\<close> over the
  neighbourhood: count the cop, or the active agent, found in the cell.\<close>

definition tally_cell :: "model \<Rightarrow> nat \<times> nat \<Rightarrow> cell \<Rightarrow> nat \<times> nat" where
  "tally_cell s ca c =
    (case grid s c of
       None \<Rightarrow> ca
     | Some j \<Rightarrow>
         if etype (turtles s j) = COP then (Suc (fst ca), snd ca)
         else if etype (turtles s j) = AGENT \<and> active (turtles s j) then (fst ca, Suc (snd ca))
         else ca)"

definition estimate_arrest_probability :: "model \<Rightarrow> cell \<Rightarrow> real" where
  "estimate_arrest_probability s c =
    (let (cops_count, active_agents_count) = foldl (tally_cell s) (0, 0) (neighborhoods s c)
     in arrest_probability (k_param s) cops_count active_agents_count)"

text \<open>The counts the loop computes, stated directly: the cells of a list holding a
  cop, and those holding an active agent.\<close>

definition cop_at :: "model \<Rightarrow> cell \<Rightarrow> bool" where
  "cop_at s c = (case grid s c of None \<Rightarrow> False | Some j \<Rightarrow> etype (turtles s j) = COP)"

definition active_agent_at :: "model \<Rightarrow> cell \<Rightarrow> bool" where
  "active_agent_at s c =
    (case grid s c of None \<Rightarrow> False | Some j \<Rightarrow> etype (turtles s j) = AGENT \<and> active (turtles s j))"

definition grievance_source :: "variant \<Rightarrow> turtle \<Rightarrow> real" where
  "grievance_source v t = (if v = Ext1 then adjusted_hardship t else hardship t)"

definition determine_behavior :: "variant \<Rightarrow> model \<Rightarrow> nat \<Rightarrow> model" where
  "determine_behavior v s i =
    (let t = turtles s i;
         g = grievance (grievance_source v t) (gov_legitimacy s);
         p = estimate_arrest_probability s (position t)
     in s\<lparr>turtles := (turtles s)(i := t\<lparr>active := activates g (risk_aversion t) p\<rparr>)\<rparr>)"

subsection \<open>Enforcement\<close>

text \<open>The list \<open>active_agents\<close> of \<open>enforce\<close>: the turtles found in the cells of
  the neighbourhood whose \<open>active\<close> flag is set, with their cell.\<close>

definition active_in :: "model \<Rightarrow> cell list \<Rightarrow> (nat \<times> cell) list" where
  "active_in s cells =
    concat (map (\<lambda>c. case grid s c of
                        None \<Rightarrow> []
                      | Some j \<Rightarrow> if active (turtles s j) then [(j, c)] else []) cells)"

definition draw_jail_term :: "variant \<Rightarrow> model \<Rightarrow> rng \<Rightarrow> nat \<times> rng" where
  "draw_jail_term v s r =
    (if v = Ext1 then let (j, r') = randint 0 (int (max_jail_term s)) r in (nat j, r')
     else (1000, r))"

definition enforce :: "variant \<Rightarrow> model \<Rightarrow> nat \<Rightarrow> model" where
  "enforce v s i =
    (let cop = turtles s i;
         active_agents = active_in s (neighborhoods s (position cop))
     in if active_agents = [] then s
        else
          let ((j, c), r1) = choice active_agents (rs s);
              (jt, r2) = draw_jail_term v s r1;
              ts1 = (turtles s)(j := (turtles s j)\<lparr>active := False, jail_term := jt\<rparr>);
              g1 = ((grid s)(position cop := None))(c \<mapsto> i)
          in s\<lparr>rs := r2, grid := g1, turtles := ts1(i := (ts1 i)\<lparr>position := c\<rparr>)\<rparr>)"

subsection \<open>Well-formedness of the store\<close>

text \<open>The invariant of the entity store: the geometry the neighbourhood table was
  computed for; distinct identifiers in \<open>self.entities\<close>; positions in bounds;
  every grid cell that names a turtle names one of the entities standing on that
  cell (soundness of the occupancy map: no stale entry); cops are never active
  nor jailed; a jailed agent is never active.\<close>

definition grid_sound :: "model \<Rightarrow> bool" where
  "grid_sound s \<longleftrightarrow> (\<forall>c i. grid s c = Some i \<longrightarrow> i \<in> set (entities s) \<and> position (turtles s i) = c)"

definition positions_ok :: "model \<Rightarrow> bool" where
  "positions_ok s \<longleftrightarrow> (\<forall>i \<in> set (entities s). in_bounds (width s) (height s) (position (turtles s i)))"

definition cops_calm :: "model \<Rightarrow> bool" where
  "cops_calm s \<longleftrightarrow>
     (\<forall>i \<in> set (entities s). etype (turtles s i) = COP \<longrightarrow> \<not> active (turtles s i) \<and> jail_term (turtles s i) = 0)"

definition jailed_quiet :: "model \<Rightarrow> bool" where
  "jailed_quiet s \<longleftrightarrow> (\<forall>i \<in> set (entities s). 0 < jail_term (turtles s i) \<longrightarrow> \<not> active (turtles s i))"

definition geometry_ok :: "model \<Rightarrow> bool" where
  "geometry_ok s \<longleftrightarrow> 0 < width s \<and> 0 < height s \<and> 0 \<le> vision s \<and>
     neighborhoods s = compute_neighborhoods (width s) (height s) (vision s)"

definition wf_model :: "model \<Rightarrow> bool" where
  "wf_model s \<longleftrightarrow> geometry_ok s \<and> distinct (entities s) \<and> positions_ok s \<and> grid_sound s \<and>
     cops_calm s \<and> jailed_quiet s"

text \<open>Completeness of the occupancy map, the other half of the spec's "single
  owned structure" (section 9): every entity that is not jailed is named by the grid
  cell it stands on. It is not an invariant of the code (see the counterexample in
  \<open>Spec2Isabelle\<close>).\<close>

definition grid_complete :: "model \<Rightarrow> bool" where
  "grid_complete s \<longleftrightarrow>
     (\<forall>i \<in> set (entities s). jail_term (turtles s i) = 0 \<longrightarrow> grid s (position (turtles s i)) = Some i)"

text \<open>\<open>frame_eq s s'\<close>: \<open>s'\<close> differs from \<open>s\<close> at most in the grid, the
  turtles and the random stream, the fields the per-entity operations write.
  \<open>same_status\<close>: the entity list and the type, activity and jail term of every
  turtle agree.\<close>

definition frame_eq :: "model \<Rightarrow> model \<Rightarrow> bool" where
  "frame_eq s s' \<longleftrightarrow> s' = s\<lparr>grid := grid s', turtles := turtles s', rs := rs s'\<rparr>"

definition same_status :: "model \<Rightarrow> model \<Rightarrow> bool" where
  "same_status s s' \<longleftrightarrow> entities s' = entities s \<and>
     (\<forall>x. etype (turtles s' x) = etype (turtles s x) \<and> active (turtles s' x) = active (turtles s x) \<and>
          jail_term (turtles s' x) = jail_term (turtles s x))"

subsection \<open>Frame and per-operation lemmas\<close>

lemma frame_eqD:
  assumes "frame_eq s s'"
  shows "width s' = width s \<and> height s' = height s \<and> vision s' = vision s \<and>
    k_param s' = k_param s \<and> gov_legitimacy s' = gov_legitimacy s \<and>
    max_jail_term s' = max_jail_term s \<and>
    neighbor_influence_percentage s' = neighbor_influence_percentage s \<and>
    entities s' = entities s \<and> neighborhoods s' = neighborhoods s \<and>
    quiet_data s' = quiet_data s \<and> jail_data s' = jail_data s \<and> active_data s' = active_data s \<and>
    cop_data s' = cop_data s \<and> tick s' = tick s"
proof -
  from assms have "s' = s\<lparr>grid := grid s', turtles := turtles s', rs := rs s'\<rparr>"
    by (simp add: frame_eq_def)
  then obtain g t r where "s' = s\<lparr>grid := g, turtles := t, rs := r\<rparr>" by blast
  then show ?thesis by simp
qed

lemma frame_eq_entities: "frame_eq s s' \<Longrightarrow> entities s' = entities s"
  using frame_eqD by blast

lemma frame_eq_refl [simp]: "frame_eq s s"
  by (simp add: frame_eq_def)

lemma frame_eq_trans:
  assumes "frame_eq s s'" and "frame_eq s' s''"
  shows "frame_eq s s''"
proof -
  obtain g t r where 1: "s' = s\<lparr>grid := g, turtles := t, rs := r\<rparr>"
    using assms(1) unfolding frame_eq_def by blast
  obtain g' t' r' where 2: "s'' = s'\<lparr>grid := g', turtles := t', rs := r'\<rparr>"
    using assms(2) unfolding frame_eq_def by blast
  show ?thesis unfolding 2 1 frame_eq_def by simp
qed

lemma frame_eq_grid [simp]: "frame_eq s s' \<Longrightarrow> frame_eq s (s'\<lparr>grid := g\<rparr>)"
  by (erule frame_eq_trans) (simp add: frame_eq_def)

lemma frame_eq_turtles [simp]: "frame_eq s s' \<Longrightarrow> frame_eq s (s'\<lparr>turtles := t\<rparr>)"
  by (erule frame_eq_trans) (simp add: frame_eq_def)

lemma frame_eq_rs [simp]: "frame_eq s s' \<Longrightarrow> frame_eq s (s'\<lparr>rs := r\<rparr>)"
  by (erule frame_eq_trans) (simp add: frame_eq_def)

lemma frame_eq_geometry: "frame_eq s s' \<Longrightarrow> geometry_ok s' = geometry_ok s"
  by (simp add: geometry_ok_def frame_eqD)

lemma frame_move_agent: "frame_eq s (move_agent s i)"
  unfolding move_agent_def Let_def split_def by simp

lemma frame_determine_behavior: "frame_eq s (determine_behavior v s i)"
  unfolding determine_behavior_def Let_def by simp

lemma frame_enforce: "frame_eq s (enforce v s i)"
  unfolding enforce_def Let_def split_def by simp

lemma same_status_cops_calm: "same_status s s' \<Longrightarrow> cops_calm s' = cops_calm s"
  by (simp add: same_status_def cops_calm_def)

lemma same_status_jailed_quiet: "same_status s s' \<Longrightarrow> jailed_quiet s' = jailed_quiet s"
  by (simp add: same_status_def jailed_quiet_def)

lemma grid_sound_relocate:
  assumes "grid_sound s" and "i \<in> set (entities s)"
    and "\<And>x. x \<noteq> i \<Longrightarrow> position (T x) = position (turtles s x)" and "position (T i) = c"
  shows "grid_sound (s\<lparr>rs := r, grid := ((grid s)(position (turtles s i) := None))(c \<mapsto> i), turtles := T\<rparr>)"
  unfolding grid_sound_def
proof (intro allI impI)
  fix d x
  assume g: "grid (s\<lparr>rs := r, grid := ((grid s)(position (turtles s i) := None))(c \<mapsto> i), turtles := T\<rparr>) d = Some x"
  show "x \<in> set (entities (s\<lparr>rs := r, grid := ((grid s)(position (turtles s i) := None))(c \<mapsto> i), turtles := T\<rparr>)) \<and>
        position (turtles (s\<lparr>rs := r, grid := ((grid s)(position (turtles s i) := None))(c \<mapsto> i), turtles := T\<rparr>) x) = d"
  proof (cases "d = c")
    case True
    with g assms(2,4) show ?thesis by simp
  next
    case False
    with g have d: "d \<noteq> position (turtles s i)" "grid s d = Some x"
      by (auto split: if_splits)
    with assms(1) have "x \<in> set (entities s)" "position (turtles s x) = d"
      unfolding grid_sound_def by blast+
    with d(1) assms(3)[of x] show ?thesis by auto
  qed
qed

lemma move_agent_jailed: "0 < jail_term (turtles s i) \<Longrightarrow> move_agent s i = s"
  by (simp add: move_agent_def)

lemma move_agent_free:
  assumes "geometry_ok s" and "positions_ok s" and "i \<in> set (entities s)"
    and "jail_term (turtles s i) = 0"
  shows "\<exists>c r. c \<in> set (neighborhoods s (position (turtles s i))) \<and>
     candidate (s\<lparr>grid := (grid s)(position (turtles s i) := None)\<rparr>) c \<and>
     move_agent s i = s\<lparr>rs := r, grid := ((grid s)(position (turtles s i) := None))(c \<mapsto> i),
                         turtles := (turtles s)(i := (turtles s i)\<lparr>position := c\<rparr>)\<rparr>"
proof -
  let ?t = "turtles s i"
  let ?s1 = "s\<lparr>grid := (grid s)(position ?t := None)\<rparr>"
  let ?pot = "filter (candidate ?s1) (neighborhoods ?s1 (position ?t))"
  have inb: "in_bounds (width s) (height s) (position ?t)"
    using assms(2,3) by (simp add: positions_ok_def)
  have "position ?t \<in> set (neighborhoods s (position ?t))"
    using assms(1) inb by (simp add: geometry_ok_def self_in_compute_neighborhoods)
  moreover have "candidate ?s1 (position ?t)"
    by (simp add: candidate_def)
  ultimately have ne: "?pot \<noteq> []"
    by (simp add: filter_empty_conv) blast
  obtain c r where cr: "choice ?pot (rs ?s1) = (c, r)" by fastforce
  have "c \<in> set ?pot"
    using choice_mem[OF ne, of "rs ?s1"] cr by simp
  moreover have "move_agent s i = ?s1\<lparr>rs := r, grid := (grid ?s1)(c \<mapsto> i),
                   turtles := (turtles ?s1)(i := ?t\<lparr>position := c\<rparr>)\<rparr>"
    using assms(4) ne cr by (simp add: move_agent_def Let_def)
  ultimately show ?thesis by (intro exI[of _ c] exI[of _ r]) simp
qed

lemma move_agent_status: "same_status s (move_agent s i)"
  by (simp add: same_status_def move_agent_def Let_def split_def)

lemma move_agent_wf:
  assumes "wf_model s" and "i \<in> set (entities s)"
  shows "wf_model (move_agent s i)"
proof (cases "0 < jail_term (turtles s i)")
  case True
  then show ?thesis using assms(1) by (simp add: move_agent_jailed)
next
  case False
  from assms have g: "geometry_ok s" and p: "positions_ok s" and gs: "grid_sound s"
    by (simp_all add: wf_model_def)
  obtain c r where c: "c \<in> set (neighborhoods s (position (turtles s i)))"
    and eq: "move_agent s i = s\<lparr>rs := r, grid := ((grid s)(position (turtles s i) := None))(c \<mapsto> i),
                         turtles := (turtles s)(i := (turtles s i)\<lparr>position := c\<rparr>)\<rparr>"
    using move_agent_free[OF g p assms(2)] False by blast
  have "in_bounds (width s) (height s) c"
    using c g by (auto simp: geometry_ok_def intro: compute_neighborhoods_in_bounds)
  then have "positions_ok (move_agent s i)"
    using p by (simp add: eq positions_ok_def)
  moreover have "grid_sound (move_agent s i)"
    unfolding eq using gs assms(2) by (rule grid_sound_relocate) simp_all
  moreover have "geometry_ok (move_agent s i)" "entities (move_agent s i) = entities s"
    using g frame_move_agent frame_eq_geometry frame_eqD by blast+
  moreover have "cops_calm (move_agent s i) = cops_calm s" "jailed_quiet (move_agent s i) = jailed_quiet s"
    using move_agent_status same_status_cops_calm same_status_jailed_quiet by blast+
  ultimately show ?thesis
    using assms(1) by (simp add: wf_model_def)
qed

lemma determine_behavior_eq:
  "determine_behavior v s i = s\<lparr>turtles := (turtles s)(i := (turtles s i)\<lparr>active :=
     activates (grievance (grievance_source v (turtles s i)) (gov_legitimacy s)) (risk_aversion (turtles s i))
       (estimate_arrest_probability s (position (turtles s i)))\<rparr>)\<rparr>"
  by (simp add: determine_behavior_def Let_def)

lemma determine_behavior_wf:
  assumes "wf_model s" and "etype (turtles s i) = AGENT" and "jail_term (turtles s i) = 0"
  shows "wf_model (determine_behavior v s i)"
  using assms
  by (auto simp: determine_behavior_eq wf_model_def geometry_ok_def positions_ok_def grid_sound_def
      cops_calm_def jailed_quiet_def)

lemma mem_active_in:
  "(j, c) \<in> set (active_in s cells) \<longleftrightarrow> c \<in> set cells \<and> grid s c = Some j \<and> active (turtles s j)"
  by (auto simp: active_in_def split: option.splits if_splits)

lemma draw_jail_term_Ext1: "fst (draw_jail_term Ext1 s r) \<le> max_jail_term s"
proof -
  have "0 \<le> fst (randint 0 (int (max_jail_term s)) r) \<and> fst (randint 0 (int (max_jail_term s)) r) \<le> int (max_jail_term s)"
    by (rule randint_bounds) simp
  then show ?thesis by (simp add: draw_jail_term_def split_def Let_def nat_le_iff)
qed

lemma draw_jail_term_fixed: "v \<noteq> Ext1 \<Longrightarrow> fst (draw_jail_term v s r) = 1000"
  by (simp add: draw_jail_term_def)

lemma enforce_none: "active_in s (neighborhoods s (position (turtles s i))) = [] \<Longrightarrow> enforce v s i = s"
  by (simp add: enforce_def)

lemma enforce_arrest:
  assumes "active_in s (neighborhoods s (position (turtles s i))) \<noteq> []"
  shows "\<exists>j c r. (j, c) \<in> set (active_in s (neighborhoods s (position (turtles s i)))) \<and>
     (let jt = fst (draw_jail_term v s (snd (choice (active_in s (neighborhoods s (position (turtles s i)))) (rs s))));
          ts1 = (turtles s)(j := (turtles s j)\<lparr>active := False, jail_term := jt\<rparr>)
      in enforce v s i = s\<lparr>rs := r, grid := ((grid s)(position (turtles s i) := None))(c \<mapsto> i),
                          turtles := ts1(i := (ts1 i)\<lparr>position := c\<rparr>)\<rparr>)"
proof -
  let ?A = "active_in s (neighborhoods s (position (turtles s i)))"
  obtain j c r1 where ch: "choice ?A (rs s) = ((j, c), r1)" by (metis prod.exhaust)
  have "(j, c) \<in> set ?A"
    using choice_mem[OF assms, of "rs s"] ch by simp
  then show ?thesis
    using assms ch
    by (intro exI[of _ j] exI[of _ c] exI[of _ "snd (draw_jail_term v s r1)"])
      (simp add: enforce_def Let_def split_def)
qed

lemma enforce_arrest_cop:
  assumes wf: "wf_model s" and i: "i \<in> set (entities s)" and cop: "etype (turtles s i) = COP"
    and ne: "active_in s (neighborhoods s (position (turtles s i))) \<noteq> []"
  shows "\<exists>j c r. (j, c) \<in> set (active_in s (neighborhoods s (position (turtles s i)))) \<and> j \<noteq> i \<and>
     j \<in> set (entities s) \<and> etype (turtles s j) = AGENT \<and> grid s c = Some j \<and> position (turtles s j) = c \<and>
     enforce v s i = s\<lparr>rs := r, grid := ((grid s)(position (turtles s i) := None))(c \<mapsto> i),
       turtles := (turtles s)(j := (turtles s j)\<lparr>active := False,
           jail_term := fst (draw_jail_term v s (snd (choice (active_in s (neighborhoods s (position (turtles s i)))) (rs s))))\<rparr>,
         i := (turtles s i)\<lparr>position := c\<rparr>)\<rparr>"
proof -
  obtain j c r where jc: "(j, c) \<in> set (active_in s (neighborhoods s (position (turtles s i))))"
    and eq0: "let jt = fst (draw_jail_term v s (snd (choice (active_in s (neighborhoods s (position (turtles s i)))) (rs s))));
          ts1 = (turtles s)(j := (turtles s j)\<lparr>active := False, jail_term := jt\<rparr>)
      in enforce v s i = s\<lparr>rs := r, grid := ((grid s)(position (turtles s i) := None))(c \<mapsto> i),
                          turtles := ts1(i := (ts1 i)\<lparr>position := c\<rparr>)\<rparr>"
    using enforce_arrest[OF ne] by blast
  from jc have g: "grid s c = Some j" and act: "active (turtles s j)"
    by (simp_all add: mem_active_in)
  from wf g have j: "j \<in> set (entities s)" and pj: "position (turtles s j) = c"
    unfolding wf_model_def grid_sound_def by blast+
  from wf i cop have "\<not> active (turtles s i)"
    by (auto simp: wf_model_def cops_calm_def)
  with act have ji: "j \<noteq> i" by auto
  from wf j act have "etype (turtles s j) = AGENT"
    by (cases "etype (turtles s j)") (auto simp: wf_model_def cops_calm_def)
  with jc ji j g pj eq0 show ?thesis
    by (intro exI[of _ j] exI[of _ c] exI[of _ r]) (simp add: Let_def)
qed

lemma enforce_wf:
  assumes wf: "wf_model s" and i: "i \<in> set (entities s)" and cop: "etype (turtles s i) = COP"
  shows "wf_model (enforce v s i)"
proof (cases "active_in s (neighborhoods s (position (turtles s i))) = []")
  case True
  then show ?thesis using wf by (simp add: enforce_none)
next
  case False
  then obtain j c r where ji: "j \<noteq> i" and j: "j \<in> set (entities s)" and jagent: "etype (turtles s j) = AGENT"
    and pj: "position (turtles s j) = c"
    and eq: "enforce v s i = s\<lparr>rs := r, grid := ((grid s)(position (turtles s i) := None))(c \<mapsto> i),
       turtles := (turtles s)(j := (turtles s j)\<lparr>active := False,
           jail_term := fst (draw_jail_term v s (snd (choice (active_in s (neighborhoods s (position (turtles s i)))) (rs s))))\<rparr>,
         i := (turtles s i)\<lparr>position := c\<rparr>)\<rparr>"
    using enforce_arrest_cop[OF wf i cop] by blast
  have "grid_sound (enforce v s i)"
    unfolding eq using wf i pj ji by (intro grid_sound_relocate) (auto simp: wf_model_def)
  moreover have "in_bounds (width s) (height s) c"
    using wf j pj by (auto simp: wf_model_def positions_ok_def)
  then have "positions_ok (enforce v s i)"
    using wf by (auto simp: eq wf_model_def positions_ok_def)
  moreover have "cops_calm (enforce v s i)" "jailed_quiet (enforce v s i)"
    using wf ji jagent by (auto simp: eq wf_model_def cops_calm_def jailed_quiet_def)
  ultimately show ?thesis
    using wf by (simp add: eq wf_model_def geometry_ok_def)
qed

subsection \<open>Functional behaviour of movement and enforcement\<close>

text \<open>C4. Enforcement: a cop with no active agent in its neighbourhood changes
  nothing; otherwise it arrests one of the active agents of its neighbourhood (an agent,
  never itself): the agent becomes inactive with a jail term in \<open>[0, max_jail_term]\<close>
  (\<open>extension1.py\<close>) or 1000 (\<open>rep2.py\<close>, \<open>extension2.py\<close>), stays on its cell, and
  the cop moves onto that cell and takes it in the grid; no other turtle changes
  (spec 4.4, enforcement).\<close>

theorem enforce_arrests:
  assumes "wf_model s" and "i \<in> set (entities s)" and "etype (turtles s i) = COP"
  shows "(active_in s (neighborhoods s (position (turtles s i))) = [] \<longrightarrow> enforce v s i = s) \<and>
    (active_in s (neighborhoods s (position (turtles s i))) \<noteq> [] \<longrightarrow>
      (\<exists>j c. (j, c) \<in> set (active_in s (neighborhoods s (position (turtles s i)))) \<and> j \<noteq> i \<and>
         etype (turtles s j) = AGENT \<and> \<not> active (turtles (enforce v s i) j) \<and>
         (v = Ext1 \<longrightarrow> jail_term (turtles (enforce v s i) j) \<le> max_jail_term s) \<and>
         (v \<noteq> Ext1 \<longrightarrow> jail_term (turtles (enforce v s i) j) = 1000) \<and>
         position (turtles (enforce v s i) j) = c \<and> position (turtles (enforce v s i) i) = c \<and>
         grid (enforce v s i) c = Some i \<and>
         (\<forall>x. x \<noteq> i \<longrightarrow> x \<noteq> j \<longrightarrow> turtles (enforce v s i) x = turtles s x)))"
proof (intro conjI impI)
  assume "active_in s (neighborhoods s (position (turtles s i))) = []"
  then show "enforce v s i = s" by (rule enforce_none)
next
  assume ne: "active_in s (neighborhoods s (position (turtles s i))) \<noteq> []"
  then obtain j c r where jc: "(j, c) \<in> set (active_in s (neighborhoods s (position (turtles s i))))"
    and ji: "j \<noteq> i" and jagent: "etype (turtles s j) = AGENT" and pj: "position (turtles s j) = c"
    and eq: "enforce v s i = s\<lparr>rs := r, grid := ((grid s)(position (turtles s i) := None))(c \<mapsto> i),
       turtles := (turtles s)(j := (turtles s j)\<lparr>active := False,
           jail_term := fst (draw_jail_term v s (snd (choice (active_in s (neighborhoods s (position (turtles s i)))) (rs s))))\<rparr>,
         i := (turtles s i)\<lparr>position := c\<rparr>)\<rparr>"
    using enforce_arrest_cop[OF assms] by blast
  show "\<exists>j c. (j, c) \<in> set (active_in s (neighborhoods s (position (turtles s i)))) \<and> j \<noteq> i \<and>
         etype (turtles s j) = AGENT \<and> \<not> active (turtles (enforce v s i) j) \<and>
         (v = Ext1 \<longrightarrow> jail_term (turtles (enforce v s i) j) \<le> max_jail_term s) \<and>
         (v \<noteq> Ext1 \<longrightarrow> jail_term (turtles (enforce v s i) j) = 1000) \<and>
         position (turtles (enforce v s i) j) = c \<and> position (turtles (enforce v s i) i) = c \<and>
         grid (enforce v s i) c = Some i \<and>
         (\<forall>x. x \<noteq> i \<longrightarrow> x \<noteq> j \<longrightarrow> turtles (enforce v s i) x = turtles s x)"
    unfolding eq using jc ji jagent pj draw_jail_term_Ext1 draw_jail_term_fixed
    by (intro exI[of _ j] exI[of _ c]) auto
qed

text \<open>C5. Movement: a jailed entity does not move; any other entity moves to a cell
  of its neighbourhood that was its own, empty, or held only a jailed turtle, and takes
  that cell in the grid; its old cell is released, and no other turtle changes (spec
  4.4, movement).\<close>

theorem move_agent_moves:
  assumes "wf_model s" and "i \<in> set (entities s)"
  shows "(0 < jail_term (turtles s i) \<longrightarrow> move_agent s i = s) \<and>
    (jail_term (turtles s i) = 0 \<longrightarrow>
      (\<exists>c. c \<in> set (neighborhood (width s) (height s) (vision s) (position (turtles s i))) \<and>
         (c = position (turtles s i) \<or> grid s c = None \<or> (\<exists>j. grid s c = Some j \<and> 0 < jail_term (turtles s j))) \<and>
         turtles (move_agent s i) i = (turtles s i)\<lparr>position := c\<rparr> \<and>
         grid (move_agent s i) c = Some i \<and>
         (c \<noteq> position (turtles s i) \<longrightarrow> grid (move_agent s i) (position (turtles s i)) = None) \<and>
         (\<forall>x. x \<noteq> i \<longrightarrow> turtles (move_agent s i) x = turtles s x)))"
proof (intro conjI impI)
  assume "0 < jail_term (turtles s i)"
  then show "move_agent s i = s" by (rule move_agent_jailed)
next
  assume free: "jail_term (turtles s i) = 0"
  have g: "geometry_ok s" and p: "positions_ok s" using assms(1) by (simp_all add: wf_model_def)
  obtain c r where c: "c \<in> set (neighborhoods s (position (turtles s i)))"
    and cand: "candidate (s\<lparr>grid := (grid s)(position (turtles s i) := None)\<rparr>) c"
    and eq: "move_agent s i = s\<lparr>rs := r, grid := ((grid s)(position (turtles s i) := None))(c \<mapsto> i),
                         turtles := (turtles s)(i := (turtles s i)\<lparr>position := c\<rparr>)\<rparr>"
    using move_agent_free[OF g p assms(2) free] by blast
  have "in_bounds (width s) (height s) (position (turtles s i))"
    using p assms(2) by (simp add: positions_ok_def)
  then have "c \<in> set (neighborhood (width s) (height s) (vision s) (position (turtles s i)))"
    using c g by (simp add: geometry_ok_def compute_neighborhoods_def)
  moreover have "c = position (turtles s i) \<or> grid s c = None \<or> (\<exists>j. grid s c = Some j \<and> 0 < jail_term (turtles s j))"
    using cand by (auto simp: candidate_def split: option.splits if_splits)
  ultimately show "\<exists>c. c \<in> set (neighborhood (width s) (height s) (vision s) (position (turtles s i))) \<and>
         (c = position (turtles s i) \<or> grid s c = None \<or> (\<exists>j. grid s c = Some j \<and> 0 < jail_term (turtles s j))) \<and>
         turtles (move_agent s i) i = (turtles s i)\<lparr>position := c\<rparr> \<and>
         grid (move_agent s i) c = Some i \<and>
         (c \<noteq> position (turtles s i) \<longrightarrow> grid (move_agent s i) (position (turtles s i)) = None) \<and>
         (\<forall>x. x \<noteq> i \<longrightarrow> turtles (move_agent s i) x = turtles s x)"
    by (intro exI[of _ c]) (simp add: eq)
qed

lemma tally_cell_foldl:
  "foldl (tally_cell s) (a, b) cells =
     (a + length (filter (cop_at s) cells), b + length (filter (active_agent_at s) cells))"
  by (induction cells arbitrary: a b)
    (auto simp: tally_cell_def cop_at_def active_agent_at_def split: option.splits)

lemma estimate_arrest_probability_counts:
  "estimate_arrest_probability s c =
     arrest_probability (k_param s) (length (filter (cop_at s) (neighborhoods s c)))
       (length (filter (active_agent_at s) (neighborhoods s c)))"
  by (simp add: estimate_arrest_probability_def tally_cell_foldl)

text \<open>C6. Activation: after \<open>determine_behavior\<close> an agent is active exactly when its
  grievance minus its risk aversion times the arrest probability exceeds 0.1, the
  probability being \<open>1 - exp (- k * floor (C / (A + 1)))\<close> for the numbers \<open>C\<close> of cops
  and \<open>A\<close> of active agents in the cells of its neighbourhood; nothing else
  changes (spec 4.3).\<close>

theorem determine_behavior_rule:
  "(active (turtles (determine_behavior v s i) i) \<longleftrightarrow>
     grievance (grievance_source v (turtles s i)) (gov_legitimacy s) -
     risk_aversion (turtles s i) *
       (1 - exp (- k_param s * real (length (filter (cop_at s) (neighborhoods s (position (turtles s i)))) div
                  (length (filter (active_agent_at s) (neighborhoods s (position (turtles s i)))) + 1))))
     > 0.1) \<and>
   turtles (determine_behavior v s i) i = (turtles s i)\<lparr>active := active (turtles (determine_behavior v s i) i)\<rparr> \<and>
   (\<forall>x. x \<noteq> i \<longrightarrow> turtles (determine_behavior v s i) x = turtles s x) \<and>
   grid (determine_behavior v s i) = grid s"
  by (simp add: determine_behavior_eq estimate_arrest_probability_counts arrest_probability_div
      activates_def)

end
