(* ===== verification/Grid_Step.thy ===== *)
theory Grid_Step
  imports Grid_Model
begin

text \<open>
  The step engine of the grid-backed variants: one entity's turn (\<open>act\<close>, the
  body of the main loop of \<open>step\<close>), the sequential pass over the shuffled entity
  list, the second pass that counts quiet, jailed and active agents (and, in
  \<open>extension2.py\<close>, cops), and the three \<open>step\<close> methods: \<open>rep2.py\<close> (with the
  legitimacy decay and the tick counter), \<open>extension1.py\<close> (with the
  neighbour-influenced hardship computed first) and \<open>extension2.py\<close> (with the
  removal of the first cop after counting).
\<close>

subsection \<open>One tick\<close>

text \<open>The body of \<open>for entity in self.entities:\<close> in \<open>step\<close>.\<close>

definition act :: "variant \<Rightarrow> model \<Rightarrow> nat \<Rightarrow> model" where
  "act v s i =
    (let t = turtles s i in
     if 0 < jail_term t then s\<lparr>turtles := (turtles s)(i := t\<lparr>jail_term := jail_term t - 1\<rparr>)\<rparr>
     else
       let s1 = move_agent s i
       in case etype (turtles s1 i) of
            AGENT \<Rightarrow> determine_behavior v s1 i
          | COP \<Rightarrow> enforce v s1 i)"

definition process_entities :: "variant \<Rightarrow> model \<Rightarrow> model" where
  "process_entities v s = fold (\<lambda>i s. act v s i) (entities s) s"

text \<open>The counting pass: \<open>(quiet, jail, active, cop)\<close>. \<open>rep2.py\<close> and
  \<open>extension1.py\<close> have no \<open>else\<close> branch for cops and ignore the last count.\<close>

definition tally_entity :: "model \<Rightarrow> nat \<times> nat \<times> nat \<times> nat \<Rightarrow> nat \<Rightarrow> nat \<times> nat \<times> nat \<times> nat" where
  "tally_entity s acc i =
    (let (q, jl, a, c) = acc; t = turtles s i in
     if 0 < jail_term t then (q, Suc jl, a, c)
     else if etype t = AGENT then (if active t then (q, jl, Suc a, c) else (Suc q, jl, a, c))
     else (q, jl, a, Suc c))"

definition count_states :: "model \<Rightarrow> nat \<times> nat \<times> nat \<times> nat" where
  "count_states s = foldl (tally_entity s) (0, 0, 0, 0) (entities s)"

definition record_counts :: "model \<Rightarrow> model" where
  "record_counts s =
    (let (q, jl, a, _) = count_states s
     in s\<lparr>quiet_data := quiet_data s @ [q], jail_data := jail_data s @ [jl],
          active_data := active_data s @ [a]\<rparr>)"

definition step_rep2 :: "model \<Rightarrow> model" where
  "step_rep2 s =
    (let (ents, r) = shuffle (entities s) (rs s);
         s1 = process_entities Rep2 (s\<lparr>entities := ents, rs := r\<rparr>);
         s2 = record_counts s1;
         s3 = s2\<lparr>gov_legitimacy := decay_legitimacy (gov_legitimacy s2)\<rparr>
     in s3\<lparr>tick := Suc (tick s3)\<rparr>)"

subsection \<open>Neighbour-influenced hardship (\<open>extension1.py\<close>)\<close>

text \<open>The inner loop of \<open>compute_adjusted_hardship\<close>: total hardship and number
  of the agents standing in the cells of the neighbourhood.\<close>

definition hardship_sum :: "model \<Rightarrow> cell list \<Rightarrow> real \<times> nat" where
  "hardship_sum s cells =
    foldl (\<lambda>(tot, n) c. case grid s c of
                          None \<Rightarrow> (tot, n)
                        | Some j \<Rightarrow> if etype (turtles s j) = AGENT
                                    then (tot + hardship (turtles s j), Suc n) else (tot, n))
      (0, 0) cells"

definition adjust_hardship :: "model \<Rightarrow> nat \<Rightarrow> model" where
  "adjust_hardship s i =
    (let t = turtles s i in
     if etype t = AGENT then
       let (total_hardship, count) = hardship_sum s (neighborhoods s (position t))
       in if 0 < count then
            let average_hardship = total_hardship / real count;
                p = neighbor_influence_percentage s
            in s\<lparr>turtles := (turtles s)(i := t\<lparr>adjusted_hardship :=
                   average_hardship * p + hardship t * (1 - p)\<rparr>)\<rparr>
          else s
     else s)"

definition compute_adjusted_hardship :: "model \<Rightarrow> model" where
  "compute_adjusted_hardship s = fold (\<lambda>i s. adjust_hardship s i) (entities s) s"

definition step_ext1 :: "model \<Rightarrow> model" where
  "step_ext1 s =
    (let s0 = compute_adjusted_hardship s;
         (ents, r) = shuffle (entities s0) (rs s0);
         s1 = process_entities Ext1 (s0\<lparr>entities := ents, rs := r\<rparr>)
     in record_counts s1)"

subsection \<open>Cop removal (\<open>extension2.py\<close>)\<close>

text \<open>\<open>for entity in self.entities: if entity.type == COP and shouldRemoveCop:
  self.entities.remove(entity); self.grid[x][y] = None; ... break\<close>\<close>

definition remove_first_cop :: "model \<Rightarrow> model" where
  "remove_first_cop s =
    (case find (\<lambda>i. etype (turtles s i) = COP) (entities s) of
       None \<Rightarrow> s
     | Some i \<Rightarrow> s\<lparr>entities := remove1 i (entities s),
                   grid := (grid s)(position (turtles s i) := None)\<rparr>)"

definition step_ext2 :: "model \<Rightarrow> model" where
  "step_ext2 s =
    (let (ents, r) = shuffle (entities s) (rs s);
         s1 = process_entities Ext2 (s\<lparr>entities := ents, rs := r\<rparr>);
         (q, jl, a, c) = count_states s1;
         s2 = remove_first_cop s1
     in s2\<lparr>quiet_data := quiet_data s2 @ [q], jail_data := jail_data s2 @ [jl],
           active_data := active_data s2 @ [a], cop_data := cop_data s2 @ [c]\<rparr>)"

subsection \<open>Population counts\<close>



definition num_agents :: "model \<Rightarrow> nat" where
  "num_agents s = length (filter (\<lambda>i. etype (turtles s i) = AGENT) (entities s))"

definition num_cops :: "model \<Rightarrow> nat" where
  "num_cops s = length (filter (\<lambda>i. etype (turtles s i) = COP) (entities s))"

definition step_variant :: "variant \<Rightarrow> model \<Rightarrow> model" where
  "step_variant v = (case v of Rep2 \<Rightarrow> step_rep2 | Ext1 \<Rightarrow> step_ext1 | Ext2 \<Rightarrow> step_ext2)"

definition run :: "variant \<Rightarrow> nat \<Rightarrow> model \<Rightarrow> model" where
  "run v n = step_variant v ^^ n"

text \<open>\<open>only_adjusted s s'\<close>: \<open>s'\<close> differs from \<open>s\<close> only in the
  \<open>adjusted_hardship\<close> of its turtles, the one field \<open>compute_adjusted_hardship\<close>
  writes.\<close>

definition only_adjusted :: "model \<Rightarrow> model \<Rightarrow> bool" where
  "only_adjusted s s' \<longleftrightarrow> s' = s\<lparr>turtles := turtles s'\<rparr> \<and>
     (\<forall>x. turtles s' x = (turtles s x)\<lparr>adjusted_hardship := adjusted_hardship (turtles s' x)\<rparr>)"

subsection \<open>One entity's turn\<close>

lemma act_jailed:
  "0 < jail_term (turtles s i) \<Longrightarrow>
   act v s i = s\<lparr>turtles := (turtles s)(i := (turtles s i)\<lparr>jail_term := jail_term (turtles s i) - 1\<rparr>)\<rparr>"
  by (simp add: act_def Let_def)

lemma move_agent_turtles_other: "j \<noteq> i \<Longrightarrow> turtles (move_agent s i) j = turtles s j"
  by (simp add: move_agent_def Let_def split_def)

lemma move_agent_etype [simp]: "etype (turtles (move_agent s i) j) = etype (turtles s j)"
  using move_agent_status by (simp add: same_status_def)

lemma move_agent_jail_term [simp]: "jail_term (turtles (move_agent s i) j) = jail_term (turtles s j)"
  using move_agent_status by (simp add: same_status_def)

lemma move_agent_active [simp]: "active (turtles (move_agent s i) j) = active (turtles s j)"
  using move_agent_status by (simp add: same_status_def)

lemma enforce_turtles_other:
  assumes "x \<noteq> i" and "\<not> active (turtles s x)"
  shows "turtles (enforce v s i) x = turtles s x"
proof (cases "active_in s (neighborhoods s (position (turtles s i))) = []")
  case True
  then show ?thesis by (simp add: enforce_none)
next
  case False
  then obtain j c r where jc: "(j, c) \<in> set (active_in s (neighborhoods s (position (turtles s i))))"
    and eq: "let jt = fst (draw_jail_term v s (snd (choice (active_in s (neighborhoods s (position (turtles s i)))) (rs s))));
          ts1 = (turtles s)(j := (turtles s j)\<lparr>active := False, jail_term := jt\<rparr>)
      in enforce v s i = s\<lparr>rs := r, grid := ((grid s)(position (turtles s i) := None))(c \<mapsto> i),
                          turtles := ts1(i := (ts1 i)\<lparr>position := c\<rparr>)\<rparr>"
    using enforce_arrest by blast
  have "j \<noteq> x" using jc assms(2) by (auto simp: mem_active_in)
  then show ?thesis using eq assms(1) by (simp add: Let_def)
qed

lemma act_turtles_other:
  assumes "x \<noteq> i" and "\<not> active (turtles s i)"
  shows "turtles (act v s x) i = turtles s i"
proof (cases "0 < jail_term (turtles s x)")
  case True
  then show ?thesis using assms(1) by (simp add: act_jailed)
next
  case False
  let ?s1 = "move_agent s x"
  have t1: "turtles ?s1 i = turtles s i"
    using assms(1) by (simp add: move_agent_turtles_other)
  show ?thesis
  proof (cases "etype (turtles s x)")
    case AGENT
    with False t1 assms(1) show ?thesis
      by (simp add: act_def Let_def determine_behavior_eq)
  next
    case COP
    have "turtles (enforce v ?s1 x) i = turtles ?s1 i"
      using assms t1 by (intro enforce_turtles_other) simp_all
    with False COP t1 show ?thesis
      by (simp add: act_def Let_def)
  qed
qed

lemma fold_act_untouched:
  "i \<notin> set xs \<Longrightarrow> \<not> active (turtles s i) \<Longrightarrow> turtles (fold (\<lambda>x s. act v s x) xs s) i = turtles s i"
proof (induction xs arbitrary: s)
  case Nil
  then show ?case by simp
next
  case (Cons x xs)
  then have "turtles (act v s x) i = turtles s i"
    by (intro act_turtles_other) auto
  with Cons show ?case by simp
qed

lemma fold_act_jailed:
  assumes "distinct xs" and "i \<in> set xs" and "0 < jail_term (turtles s i)" and "\<not> active (turtles s i)"
  shows "turtles (fold (\<lambda>x s. act v s x) xs s) i = (turtles s i)\<lparr>jail_term := jail_term (turtles s i) - 1\<rparr>"
proof -
  obtain ys zs where xs: "xs = ys @ i # zs" using split_list[OF assms(2)] by blast
  with assms(1) have ni: "i \<notin> set ys" "i \<notin> set zs" by auto
  let ?s1 = "fold (\<lambda>x s. act v s x) ys s"
  have t1: "turtles ?s1 i = turtles s i"
    using ni(1) assms(4) by (rule fold_act_untouched)
  let ?s2 = "act v ?s1 i"
  have t2: "turtles ?s2 i = (turtles s i)\<lparr>jail_term := jail_term (turtles s i) - 1\<rparr>"
    using t1 assms(3) by (simp add: act_jailed)
  have "turtles (fold (\<lambda>x s. act v s x) zs ?s2) i = turtles ?s2 i"
    using ni(2) t2 assms(4) by (intro fold_act_untouched) simp_all
  with t2 show ?thesis by (simp add: xs)
qed


lemmas wf_defs = wf_model_def geometry_ok_def positions_ok_def grid_sound_def cops_calm_def jailed_quiet_def

lemma wf_model_data_updates [simp]:
  "wf_model (s\<lparr>quiet_data := a\<rparr>) = wf_model s" "wf_model (s\<lparr>jail_data := a\<rparr>) = wf_model s"
  "wf_model (s\<lparr>active_data := a\<rparr>) = wf_model s" "wf_model (s\<lparr>cop_data := a\<rparr>) = wf_model s"
  "wf_model (s\<lparr>gov_legitimacy := L\<rparr>) = wf_model s" "wf_model (s\<lparr>tick := n\<rparr>) = wf_model s"
  "wf_model (s\<lparr>rs := r\<rparr>) = wf_model s"
  by (simp_all add: wf_defs)

lemma wf_model_reorder:
  assumes "wf_model s" and "mset ents = mset (entities s)"
  shows "wf_model (s\<lparr>entities := ents\<rparr>)"
proof -
  have "set ents = set (entities s)" using assms(2) by (rule mset_eq_setD)
  moreover have "distinct ents" using assms mset_eq_imp_distinct_iff by (auto simp: wf_model_def)
  ultimately show ?thesis using assms(1) by (simp add: wf_defs)
qed

lemma frame_act: "frame_eq s (act v s i)"
proof (cases "0 < jail_term (turtles s i)")
  case True
  then show ?thesis by (simp add: act_jailed)
next
  case False
  have "frame_eq s (move_agent s i)" by (rule frame_move_agent)
  moreover have "frame_eq (move_agent s i) (determine_behavior v (move_agent s i) i)"
    "frame_eq (move_agent s i) (enforce v (move_agent s i) i)"
    by (rule frame_determine_behavior, rule frame_enforce)
  ultimately show ?thesis
    using False by (auto simp: act_def Let_def split: entity_type.splits intro: frame_eq_trans)
qed

lemma act_entities [simp]: "entities (act v s i) = entities s"
  using frame_act frame_eqD by blast

lemma act_wf:
  assumes wf: "wf_model s" and i: "i \<in> set (entities s)"
  shows "wf_model (act v s i)"
proof (cases "0 < jail_term (turtles s i)")
  case True
  then show ?thesis using wf i by (auto simp: act_jailed wf_defs)
next
  case False
  let ?s1 = "move_agent s i"
  have wf1: "wf_model ?s1" using wf i by (rule move_agent_wf)
  have i1: "i \<in> set (entities ?s1)" using i frame_move_agent frame_eqD by metis
  show ?thesis
  proof (cases "etype (turtles s i)")
    case AGENT
    then have "wf_model (determine_behavior v ?s1 i)"
      using wf1 False by (intro determine_behavior_wf) simp_all
    with False AGENT show ?thesis by (simp add: act_def Let_def)
  next
    case COP
    then have "wf_model (enforce v ?s1 i)"
      using wf1 i1 by (intro enforce_wf) simp_all
    with False COP show ?thesis by (simp add: act_def Let_def)
  qed
qed

lemma process_entities_wf: "wf_model s \<Longrightarrow> wf_model (process_entities v s)"
proof -
  assume wf: "wf_model s"
  have "wf_model (fold (\<lambda>i s. act v s i) (entities s) s) \<and>
        entities (fold (\<lambda>i s. act v s i) (entities s) s) = entities s"
    by (rule fold_invariant[where P = "\<lambda>s'. wf_model s' \<and> entities s' = entities s"])
      (use wf in \<open>auto intro: act_wf\<close>)
  then show ?thesis by (simp add: process_entities_def)
qed

lemma process_entities_frame: "frame_eq s (process_entities v s)"
proof -
  have "frame_eq s (fold (\<lambda>i s. act v s i) xs s)" for xs
    by (induction xs arbitrary: s) (auto intro: frame_eq_trans frame_act)
  then show ?thesis by (simp add: process_entities_def)
qed

lemma enforce_etype [simp]: "etype (turtles (enforce v s i) x) = etype (turtles s x)"
proof (cases "active_in s (neighborhoods s (position (turtles s i))) = []")
  case True
  then show ?thesis by (simp add: enforce_none)
next
  case False
  then obtain j c r where
    eq: "let jt = fst (draw_jail_term v s (snd (choice (active_in s (neighborhoods s (position (turtles s i)))) (rs s))));
          ts1 = (turtles s)(j := (turtles s j)\<lparr>active := False, jail_term := jt\<rparr>)
      in enforce v s i = s\<lparr>rs := r, grid := ((grid s)(position (turtles s i) := None))(c \<mapsto> i),
                          turtles := ts1(i := (ts1 i)\<lparr>position := c\<rparr>)\<rparr>"
    using enforce_arrest by blast
  then show ?thesis by (simp add: Let_def)
qed

lemma act_etype [simp]: "etype (turtles (act v s i) x) = etype (turtles s x)"
proof (cases "0 < jail_term (turtles s i)")
  case True
  then show ?thesis by (simp add: act_jailed)
next
  case False
  then show ?thesis
    by (cases "etype (turtles s i)") (simp_all add: act_def Let_def determine_behavior_eq)
qed

lemma process_entities_etype [simp]:
  "etype (turtles (process_entities v s) x) = etype (turtles s x)"
proof -
  have "etype (turtles (fold (\<lambda>i s. act v s i) xs s) x) = etype (turtles s x)" for xs
    by (induction xs arbitrary: s) auto
  then show ?thesis by (simp add: process_entities_def)
qed

lemma tally_entity_sum:
  assumes "etype (turtles s x) = COP \<longrightarrow> jail_term (turtles s x) = 0"
    and "tally_entity s (q0, j0, a0, c0) x = (q, jl, a, c)"
  shows "q + jl + a = q0 + j0 + a0 + (if etype (turtles s x) = AGENT then 1 else 0)"
  using assms by (cases "etype (turtles s x)") (auto simp: tally_entity_def Let_def split: if_splits)

lemma tally_foldl_sum:
  assumes "\<forall>i\<in>set xs. etype (turtles s i) = COP \<longrightarrow> jail_term (turtles s i) = 0"
    and "foldl (tally_entity s) (q0, j0, a0, c0) xs = (q, jl, a, c)"
  shows "q + jl + a = q0 + j0 + a0 + length (filter (\<lambda>i. etype (turtles s i) = AGENT) xs)"
  using assms
proof (induction xs arbitrary: q0 j0 a0 c0)
  case Nil
  then show ?case by simp
next
  case (Cons x xs)
  obtain q1 j1 a1 c1 where t: "tally_entity s (q0, j0, a0, c0) x = (q1, j1, a1, c1)"
    by (metis prod.exhaust)
  have "q1 + j1 + a1 = q0 + j0 + a0 + (if etype (turtles s x) = AGENT then 1 else 0)"
    using Cons.prems(1) t by (intro tally_entity_sum) simp_all
  moreover have "q + jl + a = q1 + j1 + a1 + length (filter (\<lambda>i. etype (turtles s i) = AGENT) xs)"
    using Cons.prems t by (intro Cons.IH[of q1 j1 a1 c1]) simp_all
  ultimately show ?case by simp
qed

lemma count_states_sum:
  assumes "cops_calm s" and "count_states s = (q, jl, a, c)"
  shows "q + jl + a = num_agents s"
  using tally_foldl_sum[of "entities s" s 0 0 0 0 q jl a c] assms
  by (simp add: cops_calm_def count_states_def num_agents_def)


lemma num_agents_reorder:
  "mset ents = mset (entities s) \<Longrightarrow> num_agents (s\<lparr>entities := ents, rs := r\<rparr>) = num_agents s"
  unfolding num_agents_def by (drule length_filter_mset_cong) simp

lemma num_agents_process [simp]: "num_agents (process_entities v s) = num_agents s"
proof -
  have "entities (process_entities v s) = entities s"
    using process_entities_frame[of s v] by (rule frame_eq_entities)
  then show ?thesis by (simp add: num_agents_def)
qed

lemma shuffled_pass:
  assumes "wf_model s" and "mset ents = mset (entities s)"
  shows "wf_model (process_entities v (s\<lparr>entities := ents, rs := r\<rparr>))"
    and "num_agents (process_entities v (s\<lparr>entities := ents, rs := r\<rparr>)) = num_agents s"
proof -
  have "wf_model (s\<lparr>entities := ents, rs := r\<rparr>)"
    using wf_model_reorder[OF assms] by simp
  then show "wf_model (process_entities v (s\<lparr>entities := ents, rs := r\<rparr>))"
    by (rule process_entities_wf)
  show "num_agents (process_entities v (s\<lparr>entities := ents, rs := r\<rparr>)) = num_agents s"
    using assms(2) by (simp add: num_agents_reorder)
qed

lemma record_counts_eq:
  "count_states s = (q, jl, a, c) \<Longrightarrow>
   record_counts s = s\<lparr>quiet_data := quiet_data s @ [q], jail_data := jail_data s @ [jl],
          active_data := active_data s @ [a]\<rparr>"
  by (simp add: record_counts_def)

lemma step_rep2_unfold:
  assumes "shuffle (entities s) (rs s) = (ents, r)"
    and "count_states (process_entities Rep2 (s\<lparr>entities := ents, rs := r\<rparr>)) = (q, jl, a, c)"
  shows "step_rep2 s =
    (let s1 = process_entities Rep2 (s\<lparr>entities := ents, rs := r\<rparr>)
     in s1\<lparr>quiet_data := quiet_data s1 @ [q], jail_data := jail_data s1 @ [jl],
           active_data := active_data s1 @ [a], gov_legitimacy := decay_legitimacy (gov_legitimacy s1),
           tick := Suc (tick s1)\<rparr>)"
  using assms by (simp add: step_rep2_def record_counts_eq Let_def)

lemma step_rep2_wf: "wf_model s \<Longrightarrow> wf_model (step_rep2 s)"
proof -
  assume wf: "wf_model s"
  obtain ents r where sh: "shuffle (entities s) (rs s) = (ents, r)" by (metis prod.exhaust)
  have m: "mset ents = mset (entities s)" using shuffle_mset[of "entities s" "rs s"] sh by simp
  obtain q jl a c where cs: "count_states (process_entities Rep2 (s\<lparr>entities := ents, rs := r\<rparr>)) = (q, jl, a, c)"
    by (metis prod.exhaust)
  show ?thesis
    using shuffled_pass(1)[OF wf m] by (simp add: step_rep2_unfold[OF sh cs] Let_def)
qed

lemma process_entities_jailed:
  assumes "wf_model s" and "i \<in> set (entities s)" and "0 < jail_term (turtles s i)"
  shows "turtles (process_entities v s) i = (turtles s i)\<lparr>jail_term := jail_term (turtles s i) - 1\<rparr>"
proof -
  have "\<not> active (turtles s i)"
    using assms by (auto simp: wf_model_def jailed_quiet_def)
  moreover have "distinct (entities s)"
    using assms(1) by (simp add: wf_model_def)
  ultimately show ?thesis
    using assms(2,3) by (simp add: process_entities_def fold_act_jailed)
qed


lemma only_adjusted_refl: "only_adjusted s s"
  by (simp add: only_adjusted_def)

lemma only_adjusted_trans:
  assumes "only_adjusted s s'" and "only_adjusted s' s''"
  shows "only_adjusted s s''"
proof -
  obtain T where 1: "s' = s\<lparr>turtles := T\<rparr>" using assms(1) unfolding only_adjusted_def by blast
  obtain T' where 2: "s'' = s'\<lparr>turtles := T'\<rparr>" using assms(2) unfolding only_adjusted_def by blast
  have "\<forall>x. turtles s'' x = (turtles s x)\<lparr>adjusted_hardship := adjusted_hardship (turtles s'' x)\<rparr>"
    using assms unfolding only_adjusted_def by (metis turtle.update_convs(6) turtle.surjective)
  then show ?thesis unfolding only_adjusted_def 2 1 by simp
qed

lemma adjust_hardship_only: "only_adjusted s (adjust_hardship s i)"
  by (auto simp: adjust_hardship_def Let_def split_def only_adjusted_def)

lemma compute_adjusted_hardship_only: "only_adjusted s (compute_adjusted_hardship s)"
proof -
  have "only_adjusted s (fold (\<lambda>i s. adjust_hardship s i) xs s)" for xs
  proof (induction xs arbitrary: s)
    case Nil
    then show ?case by (simp add: only_adjusted_refl)
  next
    case (Cons x xs)
    then show ?case
      using adjust_hardship_only only_adjusted_trans by fastforce
  qed
  then show ?thesis by (simp add: compute_adjusted_hardship_def)
qed

lemma only_adjusted_fields:
  assumes "only_adjusted s s'"
  shows "entities s' = entities s \<and> rs s' = rs s \<and> grid s' = grid s \<and> frame_eq s s' \<and>
    (\<forall>x. position (turtles s' x) = position (turtles s x) \<and> etype (turtles s' x) = etype (turtles s x) \<and>
         active (turtles s' x) = active (turtles s x) \<and> jail_term (turtles s' x) = jail_term (turtles s x))"
proof -
  obtain T where 1: "s' = s\<lparr>turtles := T\<rparr>" using assms unfolding only_adjusted_def by blast
  have "\<forall>x. T x = (turtles s x)\<lparr>adjusted_hardship := adjusted_hardship (T x)\<rparr>"
    using assms 1 by (simp add: only_adjusted_def)
  then have "position (T x) = position (turtles s x) \<and> etype (T x) = etype (turtles s x) \<and>
             active (T x) = active (turtles s x) \<and> jail_term (T x) = jail_term (turtles s x)" for x
    by (metis turtle.select_convs(2,7,8,9) turtle.update_convs(6) turtle.surjective)
  then show ?thesis unfolding 1 by (simp add: frame_eq_def)
qed

lemma only_adjusted_wf:
  assumes "only_adjusted s s'"
  shows "wf_model s' = wf_model s"
proof -
  obtain T where 1: "s' = s\<lparr>turtles := T\<rparr>" using assms unfolding only_adjusted_def by blast
  have "\<forall>x. position (T x) = position (turtles s x) \<and> etype (T x) = etype (turtles s x) \<and>
         active (T x) = active (turtles s x) \<and> jail_term (T x) = jail_term (turtles s x)"
    using only_adjusted_fields[OF assms] 1 by simp
  then show ?thesis unfolding 1 by (simp add: wf_defs)
qed

lemma only_adjusted_num_agents: "only_adjusted s s' \<Longrightarrow> num_agents s' = num_agents s"
  by (drule only_adjusted_fields) (simp add: num_agents_def)

lemma step_ext1_unfold:
  assumes "shuffle (entities s) (rs s) = (ents, r)"
    and "count_states (process_entities Ext1 ((compute_adjusted_hardship s)\<lparr>entities := ents, rs := r\<rparr>)) = (q, jl, a, c)"
  shows "step_ext1 s =
    (let s1 = process_entities Ext1 ((compute_adjusted_hardship s)\<lparr>entities := ents, rs := r\<rparr>)
     in s1\<lparr>quiet_data := quiet_data s1 @ [q], jail_data := jail_data s1 @ [jl],
           active_data := active_data s1 @ [a]\<rparr>)"
proof -
  have "entities (compute_adjusted_hardship s) = entities s" "rs (compute_adjusted_hardship s) = rs s"
    using only_adjusted_fields[OF compute_adjusted_hardship_only] by simp_all
  then show ?thesis using assms by (simp add: step_ext1_def record_counts_eq Let_def)
qed


lemma remove_first_cop_turtles [simp]: "turtles (remove_first_cop s) = turtles s"
  by (simp add: remove_first_cop_def split: option.splits)

lemma remove_first_cop_data [simp]:
  "quiet_data (remove_first_cop s) = quiet_data s" "jail_data (remove_first_cop s) = jail_data s"
  "active_data (remove_first_cop s) = active_data s" "cop_data (remove_first_cop s) = cop_data s"
  by (simp_all add: remove_first_cop_def split: option.splits)

lemma remove_first_cop_num_agents: "num_agents (remove_first_cop s) = num_agents s"
proof (cases "find (\<lambda>i. etype (turtles s i) = COP) (entities s)")
  case None
  then show ?thesis by (simp add: remove_first_cop_def)
next
  case (Some i)
  then have "etype (turtles s i) = COP" by (auto dest: find_Some_holds)
  with Some show ?thesis by (simp add: remove_first_cop_def num_agents_def filter_remove1_other)
qed

lemma remove_first_cop_wf:
  assumes wf: "wf_model s"
  shows "wf_model (remove_first_cop s)"
proof (cases "find (\<lambda>i. etype (turtles s i) = COP) (entities s)")
  case None
  then show ?thesis using wf by (simp add: remove_first_cop_def)
next
  case (Some i)
  have d: "distinct (entities s)" using wf by (simp add: wf_model_def)
  then have set_rm: "set (remove1 i (entities s)) = set (entities s) - {i}" by simp
  have "grid_sound (s\<lparr>entities := remove1 i (entities s), grid := (grid s)(position (turtles s i) := None)\<rparr>)"
    using wf unfolding grid_sound_def set_rm by (auto simp: wf_model_def grid_sound_def)
  then show ?thesis
    using wf Some d by (auto simp: remove_first_cop_def wf_model_def geometry_ok_def positions_ok_def
      cops_calm_def jailed_quiet_def set_rm)
qed

lemma step_ext2_unfold:
  assumes "shuffle (entities s) (rs s) = (ents, r)"
    and "count_states (process_entities Ext2 (s\<lparr>entities := ents, rs := r\<rparr>)) = (q, jl, a, c)"
  shows "step_ext2 s =
    (let s2 = remove_first_cop (process_entities Ext2 (s\<lparr>entities := ents, rs := r\<rparr>))
     in s2\<lparr>quiet_data := quiet_data s2 @ [q], jail_data := jail_data s2 @ [jl],
           active_data := active_data s2 @ [a], cop_data := cop_data s2 @ [c]\<rparr>)"
  using assms by (simp add: step_ext2_def Let_def)


subsection \<open>One tick of each variant\<close>

lemma pass_counts:
  assumes "wf_model s" and "mset ents = mset (entities s)"
    and "count_states (process_entities v (s\<lparr>entities := ents, rs := r\<rparr>)) = (q, jl, a, c)"
  shows "q + jl + a = num_agents s"
proof -
  have "cops_calm (process_entities v (s\<lparr>entities := ents, rs := r\<rparr>))"
    using shuffled_pass(1)[OF assms(1,2)] by (simp add: wf_model_def)
  then have "q + jl + a = num_agents (process_entities v (s\<lparr>entities := ents, rs := r\<rparr>))"
    using assms(3) by (rule count_states_sum)
  then show ?thesis using shuffled_pass(2)[OF assms(1,2)] by simp
qed

lemma pass_jailed:
  assumes "wf_model s" and "mset ents = mset (entities s)"
    and "i \<in> set (entities s)" and "0 < jail_term (turtles s i)"
  shows "turtles (process_entities v (s\<lparr>entities := ents, rs := r\<rparr>)) i =
         (turtles s i)\<lparr>jail_term := jail_term (turtles s i) - 1\<rparr>"
proof -
  have wf': "wf_model (s\<lparr>entities := ents, rs := r\<rparr>)"
    using wf_model_reorder[OF assms(1,2)] by simp
  have "i \<in> set ents" using assms(2,3) by (metis mset_eq_setD)
  then show ?thesis
    using process_entities_jailed[OF wf'] assms(4) by simp
qed

lemma pass_data:
  "quiet_data (process_entities v s) = quiet_data s \<and> jail_data (process_entities v s) = jail_data s \<and>
   active_data (process_entities v s) = active_data s \<and> cop_data (process_entities v s) = cop_data s"
  using frame_eqD[OF process_entities_frame] by blast

lemma step_variant_wf: "wf_model s \<Longrightarrow> wf_model (step_variant v s)"
proof -
  assume wf: "wf_model s"
  let ?s0 = "if v = Ext1 then compute_adjusted_hardship s else s"
  have wf0: "wf_model ?s0"
    using wf only_adjusted_wf[OF compute_adjusted_hardship_only] by simp
  obtain ents r where sh: "shuffle (entities ?s0) (rs ?s0) = (ents, r)" by (metis prod.exhaust)
  have m: "mset ents = mset (entities ?s0)" using shuffle_mset[of "entities ?s0" "rs ?s0"] sh by simp
  let ?s1 = "process_entities v (?s0\<lparr>entities := ents, rs := r\<rparr>)"
  have wf1: "wf_model ?s1" by (rule shuffled_pass(1)[OF wf0 m])
  obtain q jl a c where cs: "count_states ?s1 = (q, jl, a, c)" by (metis prod.exhaust)
  show ?thesis
  proof (cases v)
    case Rep2
    then show ?thesis using wf1 sh cs by (simp add: step_variant_def step_rep2_unfold Let_def)
  next
    case Ext1
    moreover have "entities (compute_adjusted_hardship s) = entities s" "rs (compute_adjusted_hardship s) = rs s"
      using only_adjusted_fields[OF compute_adjusted_hardship_only] by simp_all
    ultimately show ?thesis using wf1 sh cs by (simp add: step_variant_def step_ext1_unfold Let_def)
  next
    case Ext2
    then show ?thesis using remove_first_cop_wf[OF wf1] sh cs by (simp add: step_variant_def step_ext2_unfold Let_def)
  qed
qed


lemma step_variant_counts:
  assumes wf: "wf_model s"
  shows "\<exists>q jl a. quiet_data (step_variant v s) = quiet_data s @ [q] \<and>
    jail_data (step_variant v s) = jail_data s @ [jl] \<and> active_data (step_variant v s) = active_data s @ [a] \<and>
    q + jl + a = num_agents s \<and> num_agents (step_variant v s) = num_agents s"
proof -
  let ?s0 = "if v = Ext1 then compute_adjusted_hardship s else s"
  have fr0: "frame_eq s ?s0" "num_agents ?s0 = num_agents s" "wf_model ?s0"
    using only_adjusted_fields[OF compute_adjusted_hardship_only, of s]
      only_adjusted_num_agents[OF compute_adjusted_hardship_only, of s]
      only_adjusted_wf[OF compute_adjusted_hardship_only, of s] wf by auto
  obtain ents r where sh: "shuffle (entities ?s0) (rs ?s0) = (ents, r)" by (metis prod.exhaust)
  have m: "mset ents = mset (entities ?s0)" using shuffle_mset[of "entities ?s0" "rs ?s0"] sh by simp
  let ?s1 = "process_entities v (?s0\<lparr>entities := ents, rs := r\<rparr>)"
  obtain q jl a c where cs: "count_states ?s1 = (q, jl, a, c)" by (metis prod.exhaust)
  have sum: "q + jl + a = num_agents s" using pass_counts[OF fr0(3) m cs] fr0(2) by simp
  have n1: "num_agents ?s1 = num_agents s" using shuffled_pass(2)[OF fr0(3) m] fr0(2) by simp
  have d1: "quiet_data ?s1 = quiet_data s \<and> jail_data ?s1 = jail_data s \<and> active_data ?s1 = active_data s"
    using pass_data[of v "?s0\<lparr>entities := ents, rs := r\<rparr>"] frame_eqD[OF fr0(1)] by simp
  show ?thesis
  proof (cases v)
    case Rep2
    with sh cs have "step_variant v s = ?s1\<lparr>quiet_data := quiet_data ?s1 @ [q], jail_data := jail_data ?s1 @ [jl],
           active_data := active_data ?s1 @ [a], gov_legitimacy := decay_legitimacy (gov_legitimacy ?s1),
           tick := Suc (tick ?s1)\<rparr>"
      by (simp add: step_variant_def step_rep2_unfold Let_def)
    with sum n1 d1 show ?thesis by (simp add: num_agents_def)
  next
    case Ext1
    moreover have "entities (compute_adjusted_hardship s) = entities s" "rs (compute_adjusted_hardship s) = rs s"
      using only_adjusted_fields[OF compute_adjusted_hardship_only] by simp_all
    ultimately have "step_variant v s = ?s1\<lparr>quiet_data := quiet_data ?s1 @ [q], jail_data := jail_data ?s1 @ [jl],
           active_data := active_data ?s1 @ [a]\<rparr>"
      using sh cs by (simp add: step_variant_def step_ext1_unfold Let_def)
    with sum n1 d1 show ?thesis by (simp add: num_agents_def)
  next
    case Ext2
    with sh cs have "step_variant v s = (remove_first_cop ?s1)\<lparr>quiet_data := quiet_data ?s1 @ [q],
           jail_data := jail_data ?s1 @ [jl], active_data := active_data ?s1 @ [a],
           cop_data := cop_data ?s1 @ [c]\<rparr>"
      by (simp add: step_variant_def step_ext2_unfold Let_def)
    moreover have "num_agents (remove_first_cop ?s1) = num_agents s"
      using n1 by (simp add: remove_first_cop_num_agents)
    ultimately show ?thesis using sum d1 by (simp add: num_agents_def)
  qed
qed

text \<open>C3. A jailed agent serves exactly one tick per step: its jail term drops by
  one, it does not move and it stays inactive, in every grid variant (spec section 3
  invariant and section 8, second property).\<close>

theorem step_jail_countdown:
  assumes wf: "wf_model s" and i: "i \<in> set (entities s)" and j: "0 < jail_term (turtles s i)"
  shows "jail_term (turtles (step_variant v s) i) = jail_term (turtles s i) - 1 \<and>
    position (turtles (step_variant v s) i) = position (turtles s i) \<and> \<not> active (turtles (step_variant v s) i)"
proof -
  let ?s0 = "if v = Ext1 then compute_adjusted_hardship s else s"
  have f0: "entities ?s0 = entities s" "wf_model ?s0"
    "position (turtles ?s0 i) = position (turtles s i)" "active (turtles ?s0 i) = active (turtles s i)"
    "jail_term (turtles ?s0 i) = jail_term (turtles s i)"
    using only_adjusted_fields[OF compute_adjusted_hardship_only, of s]
      only_adjusted_wf[OF compute_adjusted_hardship_only, of s] wf by auto
  have na: "\<not> active (turtles s i)" using wf i j by (auto simp: wf_model_def jailed_quiet_def)
  obtain ents r where sh: "shuffle (entities ?s0) (rs ?s0) = (ents, r)" by (metis prod.exhaust)
  have m: "mset ents = mset (entities ?s0)" using shuffle_mset[of "entities ?s0" "rs ?s0"] sh by simp
  let ?s1 = "process_entities v (?s0\<lparr>entities := ents, rs := r\<rparr>)"
  have t1: "turtles ?s1 i = (turtles ?s0 i)\<lparr>jail_term := jail_term (turtles ?s0 i) - 1\<rparr>"
    using pass_jailed[OF f0(2) m] i j f0 by simp
  obtain q jl a c where cs: "count_states ?s1 = (q, jl, a, c)" by (metis prod.exhaust)
  have "turtles (step_variant v s) = turtles ?s1"
  proof (cases v)
    case Rep2
    with sh cs show ?thesis by (simp add: step_variant_def step_rep2_unfold Let_def)
  next
    case Ext1
    moreover have "entities (compute_adjusted_hardship s) = entities s" "rs (compute_adjusted_hardship s) = rs s"
      using only_adjusted_fields[OF compute_adjusted_hardship_only] by simp_all
    ultimately show ?thesis using sh cs by (simp add: step_variant_def step_ext1_unfold Let_def)
  next
    case Ext2
    with sh cs show ?thesis by (simp add: step_variant_def step_ext2_unfold Let_def)
  qed
  then show ?thesis using t1 f0 na by simp
qed

subsection \<open>Runs\<close>

lemma run_Suc: "run v (Suc n) s = step_variant v (run v n s)"
  by (simp add: run_def)

lemma run_0 [simp]: "run v 0 s = s"
  by (simp add: run_def)

lemma run_wf_aux: "wf_model s \<Longrightarrow> wf_model (run v n s)"
  by (induction n) (simp_all add: run_Suc step_variant_wf)

lemma run_counts:
  assumes "wf_model s"
  shows "\<exists>qs js as. quiet_data (run v n s) = quiet_data s @ qs \<and> jail_data (run v n s) = jail_data s @ js \<and>
    active_data (run v n s) = active_data s @ as \<and> length qs = n \<and> length js = n \<and> length as = n \<and>
    (\<forall>k < n. qs ! k + js ! k + as ! k = num_agents s) \<and> num_agents (run v n s) = num_agents s"
proof (induction n)
  case 0
  then show ?case by simp
next
  case (Suc n)
  then obtain qs js as where IH: "quiet_data (run v n s) = quiet_data s @ qs" "jail_data (run v n s) = jail_data s @ js"
    "active_data (run v n s) = active_data s @ as" "length qs = n" "length js = n" "length as = n"
    "\<forall>k < n. qs ! k + js ! k + as ! k = num_agents s" "num_agents (run v n s) = num_agents s"
    by blast
  obtain q jl a where st: "quiet_data (step_variant v (run v n s)) = quiet_data (run v n s) @ [q]"
    "jail_data (step_variant v (run v n s)) = jail_data (run v n s) @ [jl]"
    "active_data (step_variant v (run v n s)) = active_data (run v n s) @ [a]"
    "q + jl + a = num_agents (run v n s)" "num_agents (step_variant v (run v n s)) = num_agents (run v n s)"
    using step_variant_counts[OF run_wf_aux[OF assms]] by blast
  have "\<forall>k < Suc n. (qs @ [q]) ! k + (js @ [jl]) ! k + (as @ [a]) ! k = num_agents s"
    using IH st by (auto simp: nth_append less_Suc_eq)
  then show ?case
    using IH st by (intro exI[of _ "qs @ [q]"] exI[of _ "js @ [jl]"] exI[of _ "as @ [a]"]) (simp add: run_Suc)
qed

subsection \<open>Extension-specific behaviour\<close>

lemma step_rep2_legitimacy: "gov_legitimacy (step_rep2 s) = decay_legitimacy (gov_legitimacy s)"
proof -
  obtain ents r where sh: "shuffle (entities s) (rs s) = (ents, r)" by (metis prod.exhaust)
  obtain q jl a c where cs: "count_states (process_entities Rep2 (s\<lparr>entities := ents, rs := r\<rparr>)) = (q, jl, a, c)"
    by (metis prod.exhaust)
  have "gov_legitimacy (process_entities Rep2 (s\<lparr>entities := ents, rs := r\<rparr>)) = gov_legitimacy s"
    using frame_eqD[OF process_entities_frame] by simp
  then show ?thesis by (simp add: step_rep2_unfold[OF sh cs] Let_def)
qed

text \<open>C13. The legitimacy decay of \<open>rep2.py\<close> is guarded by \<open>> 0\<close> but not floored:
  from any legitimacy strictly between 0 and 0.0045 one step makes it negative, and it
  then stays at that negative value. Spec section 4.3 requires it to be floored at 0.\<close>

theorem legitimacy_goes_negative:
  assumes "0 < gov_legitimacy s" and "gov_legitimacy s < 0.0045"
  shows "gov_legitimacy (step_rep2 s) = gov_legitimacy s - 0.0045 \<and> gov_legitimacy (step_rep2 s) < 0 \<and>
    gov_legitimacy (step_rep2 (step_rep2 s)) = gov_legitimacy (step_rep2 s)"
  using assms by (simp add: step_rep2_legitimacy decay_legitimacy_def)




lemma tally_foldl_cops:
  assumes "\<forall>i\<in>set xs. etype (turtles s i) = COP \<longrightarrow> jail_term (turtles s i) = 0"
    and "foldl (tally_entity s) (q0, j0, a0, c0) xs = (q, jl, a, c)"
  shows "c = c0 + length (filter (\<lambda>i. etype (turtles s i) = COP) xs)"
  using assms
proof (induction xs arbitrary: q0 j0 a0 c0)
  case Nil
  then show ?case by simp
next
  case (Cons x xs)
  obtain q1 j1 a1 c1 where t: "tally_entity s (q0, j0, a0, c0) x = (q1, j1, a1, c1)"
    by (metis prod.exhaust)
  have c1: "c1 = c0 + (if etype (turtles s x) = COP then 1 else 0)"
    using Cons.prems(1) t by (cases "etype (turtles s x)") (auto simp: tally_entity_def Let_def split: if_splits)
  have "c = c1 + length (filter (\<lambda>i. etype (turtles s i) = COP) xs)"
    using Cons.prems t by (intro Cons.IH[of q1 j1 a1]) simp_all
  with c1 show ?case by simp
qed

lemma remove_first_cop_num_cops:
  assumes "0 < num_cops s"
  shows "num_cops (remove_first_cop s) = num_cops s - 1"
proof -
  obtain i where f: "find (\<lambda>i. etype (turtles s i) = COP) (entities s) = Some i"
    using assms by (cases "find (\<lambda>i. etype (turtles s i) = COP) (entities s)")
      (auto simp: num_cops_def find_None_iff filter_empty_conv)
  then have "etype (turtles s i) = COP" "i \<in> set (entities s)" by (auto dest: find_Some_holds)
  with f show ?thesis by (simp add: remove_first_cop_def num_cops_def length_filter_remove1)
qed

lemma num_cops_process [simp]: "num_cops (process_entities v s) = num_cops s"
  using process_entities_frame[of s v] by (simp add: num_cops_def frame_eq_entities)

text \<open>C16. \<open>extension2.py\<close> removes one cop per tick: when a cop is left, a step
  appends the number of cops before the removal to the cop series, leaves one cop
  fewer, and keeps every agent.\<close>

theorem step_ext2_removes_cop:
  assumes "wf_model s" and "0 < num_cops s"
  shows "cop_data (step_ext2 s) = cop_data s @ [num_cops s] \<and>
    num_cops (step_ext2 s) = num_cops s - 1 \<and> num_agents (step_ext2 s) = num_agents s"
proof -
  obtain ents r where sh: "shuffle (entities s) (rs s) = (ents, r)" by (metis prod.exhaust)
  have m: "mset ents = mset (entities s)" using shuffle_mset[of "entities s" "rs s"] sh by simp
  let ?s1 = "process_entities Ext2 (s\<lparr>entities := ents, rs := r\<rparr>)"
  let ?s2 = "remove_first_cop ?s1"
  obtain q jl a c where cs: "count_states ?s1 = (q, jl, a, c)" by (metis prod.exhaust)
  have wf1: "wf_model ?s1" by (rule shuffled_pass(1)[OF assms(1) m])
  have "num_cops (s\<lparr>entities := ents, rs := r\<rparr>) = num_cops s"
    unfolding num_cops_def using length_filter_mset_cong[OF m] by simp
  then have nc: "num_cops ?s1 = num_cops s" by simp
  have "\<forall>i\<in>set (entities ?s1). etype (turtles ?s1 i) = COP \<longrightarrow> jail_term (turtles ?s1 i) = 0"
    using wf1 by (simp add: wf_model_def cops_calm_def)
  then have "c = num_cops ?s1"
    using tally_foldl_cops[of "entities ?s1" ?s1 0 0 0 0 q jl a c] cs
    by (simp add: count_states_def num_cops_def)
  with nc have c: "c = num_cops s" by simp
  have eq: "step_ext2 s = ?s2\<lparr>quiet_data := quiet_data ?s2 @ [q], jail_data := jail_data ?s2 @ [jl],
           active_data := active_data ?s2 @ [a], cop_data := cop_data ?s2 @ [c]\<rparr>"
    using step_ext2_unfold[OF sh cs] by (simp add: Let_def)
  have "cop_data ?s2 = cop_data s" using pass_data by simp
  then have 1: "cop_data (step_ext2 s) = cop_data s @ [num_cops s]" by (simp add: eq c)
  have "num_cops ?s2 = num_cops s - 1"
    using remove_first_cop_num_cops[of ?s1] nc assms(2) by simp
  then have 2: "num_cops (step_ext2 s) = num_cops s - 1" by (simp add: eq num_cops_def)
  have "num_agents ?s2 = num_agents s"
    using remove_first_cop_num_agents[of ?s1] shuffled_pass(2)[OF assms(1) m] by simp
  then have 3: "num_agents (step_ext2 s) = num_agents s" by (simp add: eq num_agents_def)
  from 1 2 3 show ?thesis by simp
qed

end
