(* ===== verification/List_Model.thy ===== *)
theory List_Model
  imports Grid_Model
begin

text \<open>
  The list-scan variant \<open>src/model_v4.5_lwz.py\<close>. It keeps no occupancy grid
  and no neighbourhood table: \<open>self.entities\<close> is a list of \<open>Turtle\<close> objects
  that is never reordered, every spatial query scans it with the Chebyshev test
  \<open>is_neighbor\<close>, and \<open>move_agent\<close> resamples a random offset until the target
  cell holds neither a cop nor a free agent. The state is the record \<open>lmodel\<close>;
  a turtle is the \<open>turtle\<close> record of the grid variants (its field
  \<open>adjusted_hardship\<close> is not read here). The resampling loop may not end, so
  it is a \<open>partial_function (option)\<close> and every operation that moves an entity
  returns an option: \<open>None\<close> is the tick that never finishes.
\<close>

record lmodel =
  l_width :: int
  l_height :: int
  l_vision :: int
  l_k :: real
  l_legitimacy :: real
  l_max_jail_term :: nat
  l_entities :: "turtle list"
  l_num_agents :: nat
  l_num_cops :: nat
  l_quiet :: "nat list"
  l_jail :: "nat list"
  l_active :: "nat list"
  l_rs :: rng

subsection \<open>Movement by resampling\<close>

text \<open>\<open>is_position_valid(new_x, new_y)\<close>: no cop and no agent with jail term 0
  stands on the cell. The mover itself is in the list, at its old position.\<close>

definition is_position_valid :: "lmodel \<Rightarrow> cell \<Rightarrow> bool" where
  "is_position_valid s c =
     list_all (\<lambda>e. \<not> (position e = c \<and> (etype e = COP \<or> (etype e = AGENT \<and> jail_term e = 0))))
       (l_entities s)"

text \<open>One iteration of the \<open>while True\<close> loop: two draws
  \<open>randint(-vision, vision)\<close> and the wrapped target cell.\<close>

definition draw_target :: "lmodel \<Rightarrow> cell \<Rightarrow> rng \<Rightarrow> cell \<times> rng" where
  "draw_target s p r =
     (let (dx, r1) = randint (- l_vision s) (l_vision s) r;
          (dy, r2) = randint (- l_vision s) (l_vision s) r1
      in (((fst p + dx) mod l_width s, (snd p + dy) mod l_height s), r2))"

text \<open>The loop: exit with the target when it is valid, draw again otherwise.\<close>

partial_function (option) move_loop :: "lmodel \<Rightarrow> cell \<Rightarrow> rng \<Rightarrow> (cell \<times> rng) option" where
  "move_loop s p r =
     (let (c, r') = draw_target s p r
      in if is_position_valid s c then Some (c, r') else move_loop s p r')"

definition move_agent45 :: "lmodel \<Rightarrow> nat \<Rightarrow> lmodel option" where
  "move_agent45 s i =
     (let t = l_entities s ! i in
      if 0 < jail_term t then Some s
      else case move_loop s (position t) (l_rs s) of
             None \<Rightarrow> None
           | Some (c, r) \<Rightarrow> Some (s\<lparr>l_entities := (l_entities s)[i := t\<lparr>position := c\<rparr>], l_rs := r\<rparr>))"

subsection \<open>Behaviour and enforcement by scanning the entity list\<close>

text \<open>\<open>estimate_arrest_probability(position)\<close>: the cops and the active agents
  among all entities whose position is a Chebyshev neighbour of the cell.\<close>

definition estimate45 :: "lmodel \<Rightarrow> cell \<Rightarrow> real" where
  "estimate45 s p =
     (let near = filter (\<lambda>e. is_neighbor (l_width s) (l_height s) (l_vision s) p (position e)) (l_entities s)
      in arrest_probability (l_k s) (length (filter (\<lambda>e. etype e = COP) near))
           (length (filter (\<lambda>e. etype e = AGENT \<and> active e) near)))"

definition determine_behavior45 :: "lmodel \<Rightarrow> nat \<Rightarrow> lmodel" where
  "determine_behavior45 s i =
     (let t = l_entities s ! i;
          p = estimate45 s (position t)
      in s\<lparr>l_entities := (l_entities s)[i :=
            t\<lparr>active := activates (grievance (hardship t) (l_legitimacy s)) (risk_aversion t) p\<rparr>]\<rparr>)"

text \<open>\<open>enforce(cop)\<close>: the active agents among \<open>self.entities[:self.num_agents]\<close>
  that are Chebyshev neighbours of the cop, one of them chosen, deactivated and
  given \<open>randint(0, max_jail_term)\<close>, and the cop set to its position. Entities are
  named by their index in the list.\<close>

definition arrestable45 :: "lmodel \<Rightarrow> cell \<Rightarrow> nat list" where
  "arrestable45 s p =
     filter (\<lambda>j. is_neighbor (l_width s) (l_height s) (l_vision s) p (position (l_entities s ! j)) \<and>
                 etype (l_entities s ! j) = AGENT \<and> active (l_entities s ! j))
       [0..<min (l_num_agents s) (length (l_entities s))]"

definition enforce45 :: "lmodel \<Rightarrow> nat \<Rightarrow> lmodel" where
  "enforce45 s i =
     (let cands = arrestable45 s (position (l_entities s ! i)) in
      if cands = [] then s
      else
        let (j, r1) = choice cands (l_rs s);
            (jt, r2) = randint 0 (int (l_max_jail_term s)) r1;
            a = l_entities s ! j;
            es = (l_entities s)[j := a\<lparr>active := False, jail_term := nat jt\<rparr>];
            es' = es[i := (es ! i)\<lparr>position := position a\<rparr>]
        in s\<lparr>l_entities := es', l_rs := r2\<rparr>)"

subsection \<open>The step: one pass that acts and counts\<close>

text \<open>The body of \<open>for entity in self.entities\<close> in \<open>step\<close>, with the three
  counters: a jailed entity serves a tick and is counted jailed; any other moves,
  and an agent then decides and is counted active or quiet, a cop enforces.\<close>

definition act45 :: "lmodel \<times> nat \<times> nat \<times> nat \<Rightarrow> nat \<Rightarrow> (lmodel \<times> nat \<times> nat \<times> nat) option" where
  "act45 st i =
     (let (s, q, jl, a) = st; t = l_entities s ! i in
      if 0 < jail_term t then
        Some (s\<lparr>l_entities := (l_entities s)[i := t\<lparr>jail_term := jail_term t - 1\<rparr>]\<rparr>, q, Suc jl, a)
      else
        case move_agent45 s i of
          None \<Rightarrow> None
        | Some s1 \<Rightarrow>
            (if etype (l_entities s1 ! i) = AGENT then
               let s2 = determine_behavior45 s1 i
               in if active (l_entities s2 ! i) then Some (s2, q, jl, Suc a) else Some (s2, Suc q, jl, a)
             else Some (enforce45 s1 i, q, jl, a)))"

fun pass45 :: "lmodel \<times> nat \<times> nat \<times> nat \<Rightarrow> nat list \<Rightarrow> (lmodel \<times> nat \<times> nat \<times> nat) option" where
  "pass45 st [] = Some st"
| "pass45 st (i # is) = (case act45 st i of None \<Rightarrow> None | Some st' \<Rightarrow> pass45 st' is)"

definition step45 :: "lmodel \<Rightarrow> lmodel option" where
  "step45 s =
     (case pass45 (s, 0, 0, 0) [0..<length (l_entities s)] of
        None \<Rightarrow> None
      | Some (s', q, jl, a) \<Rightarrow>
          Some (s'\<lparr>l_quiet := l_quiet s' @ [q], l_jail := l_jail s' @ [jl], l_active := l_active s' @ [a]\<rparr>))"

text \<open>\<open>for _ in range(n): model.step()\<close>; a tick that does not finish stops the run.\<close>

fun run45 :: "nat \<Rightarrow> lmodel \<Rightarrow> lmodel option" where
  "run45 0 s = Some s"
| "run45 (Suc n) s = (case run45 n s of None \<Rightarrow> None | Some s' \<Rightarrow> step45 s')"

subsection \<open>Reference notions\<close>

text \<open>The Chebyshev-box neighbourhood of spec section 4.1: every wrapped offset
  \<open>(dx, dy)\<close> with \<open>|dx|, |dy| \<le> vision\<close>.\<close>

definition chebyshev_box :: "int \<Rightarrow> int \<Rightarrow> int \<Rightarrow> cell \<Rightarrow> cell list" where
  "chebyshev_box W H v c = [((fst c + dx) mod W, (snd c + dy) mod H). dx \<leftarrow> [-v..v], dy \<leftarrow> [-v..v]]"

text \<open>\<open>skip_draws r n\<close>: the stream after \<open>n\<close> iterations of the move loop, two
  draws each.\<close>

definition skip_draws :: "rng \<Rightarrow> nat \<Rightarrow> rng" where
  "skip_draws r n = r\<lparr>rpos := rpos r + 2 * n\<rparr>"

text \<open>The invariant of the list: cops are never jailed nor active.\<close>

definition cops_free45 :: "lmodel \<Rightarrow> bool" where
  "cops_free45 s = list_all (\<lambda>e. etype e = COP \<longrightarrow> jail_term e = 0 \<and> \<not> active e) (l_entities s)"

text \<open>What an operation of the list variant may change: the turtles but not their
  types or number, and the random stream.\<close>

definition frame45 :: "lmodel \<Rightarrow> lmodel \<Rightarrow> bool" where
  "frame45 s s' \<longleftrightarrow> s' = s\<lparr>l_entities := l_entities s', l_rs := l_rs s'\<rparr> \<and>
     map etype (l_entities s') = map etype (l_entities s)"

definition num_agents45 :: "lmodel \<Rightarrow> nat" where
  "num_agents45 s = length (filter (\<lambda>e. etype e = AGENT) (l_entities s))"

subsection \<open>Concrete configurations\<close>

text \<open>A 3 x 3 torus, vision 1, one agent at (1, 1) and no cop; every draw is 0.\<close>

definition lone45 :: lmodel where
  "lone45 = \<lparr>l_width = 3, l_height = 3, l_vision = 1, l_k = 2.3, l_legitimacy = 0.3, l_max_jail_term = 30,
     l_entities = [\<lparr>agent_id = 0, etype = AGENT, turtle_vision = 1, risk_aversion = 0.5, hardship = 0.9,
                    adjusted_hardship = 0.9, active = False, jail_term = 0, position = (1, 1)\<rparr>],
     l_num_agents = 1, l_num_cops = 0, l_quiet = [], l_jail = [], l_active = [],
     l_rs = \<lparr>draws = (\<lambda>n. 0), rpos = 0\<rparr>\<rparr>"

text \<open>A 3 x 1 torus, vision 1, every cell held by a free agent.\<close>

definition full45 :: lmodel where
  "full45 = \<lparr>l_width = 3, l_height = 1, l_vision = 1, l_k = 2.3, l_legitimacy = 0.3, l_max_jail_term = 30,
     l_entities = map (\<lambda>x. \<lparr>agent_id = nat x, etype = AGENT, turtle_vision = 1, risk_aversion = 0.5,
                    hardship = 0.5, adjusted_hardship = 0.5, active = False, jail_term = 0, position = (x, 0)\<rparr>) [0, 1, 2],
     l_num_agents = 3, l_num_cops = 0, l_quiet = [], l_jail = [], l_active = [],
     l_rs = \<lparr>draws = (\<lambda>n. 0), rpos = 0\<rparr>\<rparr>"


subsection \<open>The move loop\<close>

lemma draw_target_rng: "snd (draw_target s p r) = skip_draws r 1"
  by (simp add: draw_target_def randint_def randbelow_def skip_draws_def Let_def split_def)

lemma skip_draws_add [simp]: "skip_draws (skip_draws r m) n = skip_draws r (m + n)"
  by (simp add: skip_draws_def)

lemma skip_draws_0 [simp]: "skip_draws r 0 = r"
  by (simp add: skip_draws_def)

lemma move_loop_unfold:
  "move_loop s p r =
    (if is_position_valid s (fst (draw_target s p r)) then Some (fst (draw_target s p r), skip_draws r 1)
     else move_loop s p (skip_draws r 1))"
  by (subst move_loop.simps) (simp add: split_def draw_target_rng)

lemma move_loop_hit:
  "is_position_valid s (fst (draw_target s p (skip_draws r n))) \<Longrightarrow>
   \<exists>c r'. move_loop s p r = Some (c, r')"
proof (induction n arbitrary: r)
  case 0
  then show ?case by (simp add: move_loop_unfold)
next
  case (Suc n)
  show ?case
  proof (cases "is_position_valid s (fst (draw_target s p r))")
    case True
    then show ?thesis by (simp add: move_loop_unfold)
  next
    case False
    have "\<exists>c r'. move_loop s p (skip_draws r 1) = Some (c, r')"
      using Suc.IH[of "skip_draws r 1"] Suc.prems by simp
    with False show ?thesis by (simp add: move_loop_unfold)
  qed
qed

lemma move_loop_returns_hit:
  assumes "move_loop s p r = Some res"
  shows "\<exists>n. is_position_valid s (fst (draw_target s p (skip_draws r n))) \<and>
    res = (fst (draw_target s p (skip_draws r n)), skip_draws r (Suc n))"
proof (rule move_loop.raw_induct [where P = "\<lambda>s p r res. \<exists>n. is_position_valid s (fst (draw_target s p (skip_draws r n))) \<and>
    res = (fst (draw_target s p (skip_draws r n)), skip_draws r (Suc n))", OF _ assms])
  fix f :: "lmodel \<Rightarrow> cell \<Rightarrow> rng \<Rightarrow> (cell \<times> rng) option" and s p r res
  assume IH: "\<And>s p r res. f s p r = Some res \<Longrightarrow> \<exists>n. is_position_valid s (fst (draw_target s p (skip_draws r n))) \<and>
    res = (fst (draw_target s p (skip_draws r n)), skip_draws r (Suc n))"
    and eq: "(let (c, r') = draw_target s p r in if is_position_valid s c then Some (c, r') else f s p r') = Some res"
  show "\<exists>n. is_position_valid s (fst (draw_target s p (skip_draws r n))) \<and>
    res = (fst (draw_target s p (skip_draws r n)), skip_draws r (Suc n))"
  proof (cases "is_position_valid s (fst (draw_target s p r))")
    case True
    then have "res = (fst (draw_target s p r), skip_draws r 1)"
      using eq by (simp add: split_def draw_target_rng)
    with True show ?thesis by (intro exI[of _ 0]) simp
  next
    case False
    then have "f s p (skip_draws r 1) = Some res"
      using eq by (simp add: split_def draw_target_rng)
    then obtain n where "is_position_valid s (fst (draw_target s p (skip_draws (skip_draws r 1) n)))"
      and "res = (fst (draw_target s p (skip_draws (skip_draws r 1) n)), skip_draws (skip_draws r 1) (Suc n))"
      using IH by blast
    then show ?thesis by (intro exI[of _ "Suc n"]) simp
  qed
qed

subsection \<open>Chebyshev neighbours\<close>

lemma wrap_axis_reach:
  fixes W x j v :: int
  assumes "0 < W" "0 \<le> x" "x < W" "0 \<le> j" "j < W"
  shows "(\<exists>dx. - v \<le> dx \<and> dx \<le> v \<and> (x + dx) mod W = j) \<longleftrightarrow> min \<bar>x - j\<bar> (W - \<bar>x - j\<bar>) \<le> v"
proof
  assume "\<exists>dx. - v \<le> dx \<and> dx \<le> v \<and> (x + dx) mod W = j"
  then obtain dx where dx: "- v \<le> dx" "dx \<le> v" "(x + dx) mod W = j" by blast
  define k where "k = (x + dx) div W"
  define m where "m = W * k"
  have eq: "x + dx = m + j"
    using div_mult_mod_eq[of "x + dx" W] dx(3) by (simp add: k_def m_def mult.commute)
  consider "k = 0" | "1 \<le> k" | "k \<le> -1" by linarith
  then show "min \<bar>x - j\<bar> (W - \<bar>x - j\<bar>) \<le> v"
  proof cases
    case 1
    then show ?thesis using eq dx by (auto simp: m_def min_def abs_if)
  next
    case 2
    then have "W \<le> m" using assms(1) by (simp add: m_def mult_le_cancel_left1)
    then show ?thesis using eq dx assms by (auto simp: min_def abs_if)
  next
    case 3
    then have "m \<le> - W" using assms(1)
      by (metis m_def mult.right_neutral mult_minus_right mult_left_mono nless_le)
    then show ?thesis using eq dx assms by (auto simp: min_def abs_if)
  qed
next
  assume m: "min \<bar>x - j\<bar> (W - \<bar>x - j\<bar>) \<le> v"
  consider "\<bar>x - j\<bar> \<le> v" | "W - \<bar>x - j\<bar> \<le> v" "x \<le> j" | "W - \<bar>x - j\<bar> \<le> v" "j < x"
    using m by (cases "x \<le> j") (auto simp: min_def abs_if split: if_splits)
  then show "\<exists>dx. - v \<le> dx \<and> dx \<le> v \<and> (x + dx) mod W = j"
  proof cases
    case 1
    then show ?thesis using assms by (intro exI[of _ "j - x"]) auto
  next
    case 2
    have "(x + (j - x - W)) mod W = j" using assms by (simp add: mod_pos_pos_trivial)
    then show ?thesis using 2 assms by (intro exI[of _ "j - x - W"]) auto
  next
    case 3
    have "(x + (j - x + W)) mod W = j" using assms by (simp add: mod_pos_pos_trivial)
    then show ?thesis using 3 assms by (intro exI[of _ "j - x + W"]) auto
  qed
qed

lemma mem_chebyshev_box:
  "d \<in> set (chebyshev_box W H v c) \<longleftrightarrow>
   (\<exists>dx dy. - v \<le> dx \<and> dx \<le> v \<and> - v \<le> dy \<and> dy \<le> v \<and> d = ((fst c + dx) mod W, (snd c + dy) mod H))"
proof
  assume "d \<in> set (chebyshev_box W H v c)"
  then obtain dx dy where "dx \<in> set [-v..v]" "dy \<in> set [-v..v]" "d = ((fst c + dx) mod W, (snd c + dy) mod H)"
    unfolding chebyshev_box_def by auto
  then show "\<exists>dx dy. - v \<le> dx \<and> dx \<le> v \<and> - v \<le> dy \<and> dy \<le> v \<and> d = ((fst c + dx) mod W, (snd c + dy) mod H)"
    by auto
next
  assume "\<exists>dx dy. - v \<le> dx \<and> dx \<le> v \<and> - v \<le> dy \<and> dy \<le> v \<and> d = ((fst c + dx) mod W, (snd c + dy) mod H)"
  then obtain dx dy where "- v \<le> dx" "dx \<le> v" "- v \<le> dy" "dy \<le> v" "d = ((fst c + dx) mod W, (snd c + dy) mod H)"
    by blast
  moreover have "((fst c + dx) mod W, (snd c + dy) mod H) \<in> (\<lambda>dy'. ((fst c + dx) mod W, (snd c + dy') mod H)) ` {-v..v}"
    using \<open>- v \<le> dy\<close> \<open>dy \<le> v\<close> by auto
  ultimately show "d \<in> set (chebyshev_box W H v c)"
    unfolding chebyshev_box_def by (auto intro!: bexI[of _ dx])
qed

lemma is_neighbor_box:
  assumes "0 < W" "0 < H" "in_bounds W H c" "in_bounds W H d"
  shows "is_neighbor W H v c d \<longleftrightarrow> d \<in> set (chebyshev_box W H v c)"
proof -
  have x: "(\<exists>dx. - v \<le> dx \<and> dx \<le> v \<and> (fst c + dx) mod W = fst d) \<longleftrightarrow>
      min \<bar>fst c - fst d\<bar> (W - \<bar>fst c - fst d\<bar>) \<le> v"
    using assms by (intro wrap_axis_reach) (auto simp: in_bounds_def)
  have y: "(\<exists>dy. - v \<le> dy \<and> dy \<le> v \<and> (snd c + dy) mod H = snd d) \<longleftrightarrow>
      min \<bar>snd c - snd d\<bar> (H - \<bar>snd c - snd d\<bar>) \<le> v"
    using assms by (intro wrap_axis_reach) (auto simp: in_bounds_def)
  show ?thesis
    unfolding mem_chebyshev_box is_neighbor_def Let_def using x y
    by (cases d) auto
qed

lemma draw_target_box:
  assumes "0 \<le> l_vision s"
  shows "fst (draw_target s p r) \<in> set (chebyshev_box (l_width s) (l_height s) (l_vision s) p)"
proof -
  define v where "v = l_vision s"
  define r1 where "r1 = snd (randint (- v) v r)"
  have "- v \<le> fst (randint (- v) v r) \<and> fst (randint (- v) v r) \<le> v"
    "- v \<le> fst (randint (- v) v r1) \<and> fst (randint (- v) v r1) \<le> v"
    using randint_bounds[of "- v" v] assms by (simp_all add: v_def)
  moreover have "fst (draw_target s p r) =
      ((fst p + fst (randint (- v) v r)) mod l_width s, (snd p + fst (randint (- v) v r1)) mod l_height s)"
    by (simp add: draw_target_def Let_def split_def v_def r1_def)
  ultimately show ?thesis
    unfolding mem_chebyshev_box v_def[symmetric]
    by (intro exI[of _ "fst (randint (- v) v r)"] exI[of _ "fst (randint (- v) v r1)"]) simp
qed

subsection \<open>Frame, invariant and counts\<close>

lemma frame45_refl [simp]: "frame45 s s"
  by (simp add: frame45_def)

lemma frame45_trans: "frame45 s s1 \<Longrightarrow> frame45 s1 s2 \<Longrightarrow> frame45 s s2"
  unfolding frame45_def by (metis lmodel.surjective lmodel.update_convs(7) lmodel.update_convs(13))

lemma frame45_length: "frame45 s s' \<Longrightarrow> length (l_entities s') = length (l_entities s)"
  unfolding frame45_def by (metis length_map)

lemma frame45_etype: "frame45 s s' \<Longrightarrow> i < length (l_entities s) \<Longrightarrow> etype (l_entities s' ! i) = etype (l_entities s ! i)"
  unfolding frame45_def by (metis length_map nth_map)

lemma move_agent45_cases:
  assumes "move_agent45 s i = Some s'"
  obtains "0 < jail_term (l_entities s ! i)" "s' = s"
  | c r where "jail_term (l_entities s ! i) = 0" "move_loop s (position (l_entities s ! i)) (l_rs s) = Some (c, r)"
    "s' = s\<lparr>l_entities := (l_entities s)[i := (l_entities s ! i)\<lparr>position := c\<rparr>], l_rs := r\<rparr>"
  using assms by (cases "move_loop s (position (l_entities s ! i)) (l_rs s)")
    (auto simp: move_agent45_def Let_def split: if_splits)

lemma cops_free45_nth:
  "cops_free45 s \<Longrightarrow> i < length (l_entities s) \<Longrightarrow> etype (l_entities s ! i) = COP \<Longrightarrow>
   jail_term (l_entities s ! i) = 0 \<and> \<not> active (l_entities s ! i)"
  by (simp add: cops_free45_def list_all_length)

lemma cops_free45_set:
  "cops_free45 s \<Longrightarrow> (etype e = COP \<longrightarrow> jail_term e = 0 \<and> \<not> active e) \<Longrightarrow>
   l_entities s' = (l_entities s)[i := e] \<Longrightarrow> cops_free45 s'"
  by (simp add: cops_free45_def list_all_update_same)

lemma move_agent45_frame:
  assumes "move_agent45 s i = Some s'" and "cops_free45 s" and "i < length (l_entities s)"
  shows "frame45 s s' \<and> cops_free45 s'"
  using assms(1)
proof (cases rule: move_agent45_cases)
  case 1
  then show ?thesis using assms(2) by simp
next
  case (2 c r)
  have "map etype (l_entities s') = map etype (l_entities s)"
    using 2(3) assms(3) by (simp add: map_update_same)
  moreover have "cops_free45 s'"
    using 2(3) cops_free45_nth[OF assms(2,3)] by (intro cops_free45_set[OF assms(2)]) auto
  ultimately show ?thesis using 2(3) by (simp add: frame45_def)
qed

lemma determine_behavior45_frame:
  assumes "cops_free45 s" and "i < length (l_entities s)" and "etype (l_entities s ! i) = AGENT"
  shows "frame45 s (determine_behavior45 s i) \<and> cops_free45 (determine_behavior45 s i)"
proof -
  have "map etype (l_entities (determine_behavior45 s i)) = map etype (l_entities s)"
    using assms(2) by (simp add: determine_behavior45_def Let_def map_update_same)
  moreover have "cops_free45 (determine_behavior45 s i)"
    using assms by (intro cops_free45_set[OF assms(1)]) (auto simp: determine_behavior45_def Let_def)
  ultimately show ?thesis by (simp add: frame45_def determine_behavior45_def Let_def)
qed

lemma arrestable45_mem:
  "j \<in> set (arrestable45 s p) \<Longrightarrow> j < length (l_entities s) \<and> j < l_num_agents s \<and>
     etype (l_entities s ! j) = AGENT \<and> active (l_entities s ! j) \<and>
     is_neighbor (l_width s) (l_height s) (l_vision s) p (position (l_entities s ! j))"
  by (auto simp: arrestable45_def)

lemma enforce45_cases:
  obtains "arrestable45 s (position (l_entities s ! i)) = []" "enforce45 s i = s"
  | j jt r where "j \<in> set (arrestable45 s (position (l_entities s ! i)))"
    "enforce45 s i = s\<lparr>l_entities := ((l_entities s)[j := (l_entities s ! j)\<lparr>active := False, jail_term := jt\<rparr>])
        [i := ((l_entities s)[j := (l_entities s ! j)\<lparr>active := False, jail_term := jt\<rparr>] ! i)\<lparr>position := position (l_entities s ! j)\<rparr>],
       l_rs := r\<rparr>"
proof (cases "arrestable45 s (position (l_entities s ! i)) = []")
  case True
  then show ?thesis using that(1) by (simp add: enforce45_def)
next
  case False
  let ?cs = "arrestable45 s (position (l_entities s ! i))"
  have "fst (choice ?cs (l_rs s)) \<in> set ?cs" using False by (rule choice_mem)
  then show ?thesis
    using False that(2)[of "fst (choice ?cs (l_rs s))"] by (simp add: enforce45_def Let_def split_def)
qed

lemma enforce45_frame:
  assumes "cops_free45 s" and "i < length (l_entities s)"
  shows "frame45 s (enforce45 s i) \<and> cops_free45 (enforce45 s i)"
proof (cases rule: enforce45_cases[of s i])
  case 1
  then show ?thesis using assms by simp
next
  case (2 j jt r)
  define es where "es = (l_entities s)[j := (l_entities s ! j)\<lparr>active := False, jail_term := jt\<rparr>]"
  have j: "j < length (l_entities s)" "etype (l_entities s ! j) = AGENT"
    using arrestable45_mem[OF 2(1)] by simp_all
  have les: "length es = length (l_entities s)" by (simp add: es_def)
  have m1: "map etype es = map etype (l_entities s)"
    using j by (simp add: es_def map_update_same)
  have c1: "cops_free45 (s\<lparr>l_entities := es\<rparr>)"
    using j by (intro cops_free45_set[OF assms(1)]) (auto simp: es_def)
  have m2: "map etype (es[i := (es ! i)\<lparr>position := position (l_entities s ! j)\<rparr>]) = map etype es"
    using assms(2) les by (simp add: map_update_same)
  have c2: "cops_free45 (s\<lparr>l_entities := es[i := (es ! i)\<lparr>position := position (l_entities s ! j)\<rparr>]\<rparr>)"
    using cops_free45_nth[OF c1] assms(2) les by (intro cops_free45_set[OF c1]) auto
  show ?thesis
    using 2(2) m1 m2 c2 unfolding es_def[symmetric] by (simp add: frame45_def cops_free45_def)
qed

lemma act45_counts:
  assumes "act45 (s, q, jl, a) i = Some (s', q', jl', a')" and "cops_free45 s" and "i < length (l_entities s)"
  shows "frame45 s s' \<and> cops_free45 s' \<and>
    q' + jl' + a' = q + jl + a + (if etype (l_entities s ! i) = AGENT then 1 else 0)"
proof (cases "0 < jail_term (l_entities s ! i)")
  case True
  then have ag: "etype (l_entities s ! i) = AGENT"
    using cops_free45_nth[OF assms(2,3)] by (cases "etype (l_entities s ! i)") auto
  have s': "s' = s\<lparr>l_entities := (l_entities s)[i := (l_entities s ! i)\<lparr>jail_term := jail_term (l_entities s ! i) - 1\<rparr>]\<rparr>"
    and c: "q' = q" "jl' = Suc jl" "a' = a"
    using assms(1) True by (simp_all add: act45_def Let_def)
  have "cops_free45 s'" using ag s' by (intro cops_free45_set[OF assms(2)]) auto
  moreover have "frame45 s s'" using s' assms(3) by (simp add: frame45_def map_update_same)
  ultimately show ?thesis using c ag by simp
next
  case False
  then obtain s1 where m: "move_agent45 s i = Some s1"
    using assms(1) by (auto simp: act45_def Let_def split: option.splits)
  have f1: "frame45 s s1" "cops_free45 s1" using move_agent45_frame[OF m assms(2,3)] by simp_all
  have l1: "i < length (l_entities s1)" and e1: "etype (l_entities s1 ! i) = etype (l_entities s ! i)"
    using frame45_length[OF f1(1)] frame45_etype[OF f1(1) assms(3)] assms(3) by simp_all
  show ?thesis
  proof (cases "etype (l_entities s ! i)")
    case AGENT
    let ?s2 = "determine_behavior45 s1 i"
    have "s' = ?s2" "q' + jl' + a' = q + jl + a + 1"
      using assms(1) False m e1 AGENT by (auto simp: act45_def Let_def split: if_split_asm)
    moreover have "frame45 s1 ?s2 \<and> cops_free45 ?s2"
      using determine_behavior45_frame[OF f1(2) l1] e1 AGENT by simp
    ultimately show ?thesis using f1 AGENT frame45_trans by auto
  next
    case COP
    have "s' = enforce45 s1 i" "q' = q" "jl' = jl" "a' = a"
      using assms(1) False m e1 COP by (auto simp: act45_def Let_def)
    moreover have "frame45 s1 (enforce45 s1 i) \<and> cops_free45 (enforce45 s1 i)"
      using enforce45_frame[OF f1(2) l1] by simp
    ultimately show ?thesis using f1 COP frame45_trans by auto
  qed
qed

lemma pass45_counts:
  assumes "pass45 (s, q, jl, a) is = Some (s', q', jl', a')" and "cops_free45 s"
    and "\<forall>i \<in> set is. i < length (l_entities s)"
  shows "frame45 s s' \<and> cops_free45 s' \<and>
    q' + jl' + a' = q + jl + a + length (filter (\<lambda>i. etype (l_entities s ! i) = AGENT) is)"
  using assms
proof (induction "is" arbitrary: s q jl a)
  case Nil
  then show ?case by simp
next
  case (Cons i "is")
  obtain s1 q1 jl1 a1 where st: "act45 (s, q, jl, a) i = Some (s1, q1, jl1, a1)"
    and rest: "pass45 (s1, q1, jl1, a1) is = Some (s', q', jl', a')"
    using Cons.prems(1) by (auto split: option.splits)
  have h: "frame45 s s1" "cops_free45 s1"
    "q1 + jl1 + a1 = q + jl + a + (if etype (l_entities s ! i) = AGENT then 1 else 0)"
    using act45_counts[OF st Cons.prems(2)] Cons.prems(3) by simp_all
  have "\<forall>i \<in> set is. i < length (l_entities s1)"
    using Cons.prems(3) frame45_length[OF h(1)] by simp
  then have IH: "frame45 s1 s' \<and> cops_free45 s' \<and>
      q' + jl' + a' = q1 + jl1 + a1 + length (filter (\<lambda>i. etype (l_entities s1 ! i) = AGENT) is)"
    using Cons.IH[OF rest h(2)] by simp
  have "filter (\<lambda>i. etype (l_entities s1 ! i) = AGENT) is = filter (\<lambda>i. etype (l_entities s ! i) = AGENT) is"
    using Cons.prems(3) frame45_etype[OF h(1)] by (intro filter_cong) auto
  then show ?case using IH h frame45_trans by auto
qed


lemma frame45_data:
  assumes "frame45 s s'"
  shows "l_quiet s' = l_quiet s \<and> l_jail s' = l_jail s \<and> l_active s' = l_active s \<and>
    l_width s' = l_width s \<and> l_height s' = l_height s \<and> l_vision s' = l_vision s \<and>
    l_num_agents s' = l_num_agents s \<and> l_max_jail_term s' = l_max_jail_term s"
proof -
  have eq: "s' = s\<lparr>l_entities := l_entities s', l_rs := l_rs s'\<rparr>" using assms by (simp add: frame45_def)
  show ?thesis
    using arg_cong[OF eq, of l_quiet] arg_cong[OF eq, of l_jail] arg_cong[OF eq, of l_active]
      arg_cong[OF eq, of l_width] arg_cong[OF eq, of l_height] arg_cong[OF eq, of l_vision]
      arg_cong[OF eq, of l_num_agents] arg_cong[OF eq, of l_max_jail_term]
    by simp
qed

lemma num_agents45_types: "num_agents45 s = length (filter (\<lambda>t. t = AGENT) (map etype (l_entities s)))"
  by (simp add: num_agents45_def filter_map comp_def)

lemma step45_counts:
  assumes "step45 s = Some s'" and "cops_free45 s"
  shows "\<exists>q jl a. l_quiet s' = l_quiet s @ [q] \<and> l_jail s' = l_jail s @ [jl] \<and> l_active s' = l_active s @ [a] \<and>
    q + jl + a = num_agents45 s \<and> cops_free45 s' \<and> num_agents45 s' = num_agents45 s"
proof -
  obtain s1 q jl a where p: "pass45 (s, 0, 0, 0) [0..<length (l_entities s)] = Some (s1, q, jl, a)"
    and s': "s' = s1\<lparr>l_quiet := l_quiet s1 @ [q], l_jail := l_jail s1 @ [jl], l_active := l_active s1 @ [a]\<rparr>"
    using assms(1) by (auto simp: step45_def split: option.splits)
  have h: "frame45 s s1" "cops_free45 s1"
    "q + jl + a = length (filter (\<lambda>i. etype (l_entities s ! i) = AGENT) [0..<length (l_entities s)])"
    using pass45_counts[OF p assms(2)] by simp_all
  have n: "num_agents45 s1 = num_agents45 s"
    using h(1) unfolding num_agents45_types frame45_def by simp
  have "q + jl + a = num_agents45 s"
    using h(3) length_filter_nth_upt[of "\<lambda>e. etype e = AGENT" "l_entities s"] by (simp add: num_agents45_def)
  moreover have "cops_free45 s'" "num_agents45 s' = num_agents45 s"
    using h(2) n s' by (simp_all add: cops_free45_def num_agents45_def)
  ultimately show ?thesis
    using s' frame45_data[OF h(1)] by simp
qed

lemma run45_counts:
  assumes "run45 n s = Some s'" and "cops_free45 s"
  shows "\<exists>qs js as. l_quiet s' = l_quiet s @ qs \<and> l_jail s' = l_jail s @ js \<and> l_active s' = l_active s @ as \<and>
    length qs = n \<and> length js = n \<and> length as = n \<and>
    (\<forall>k < n. qs ! k + js ! k + as ! k = num_agents45 s) \<and> cops_free45 s' \<and> num_agents45 s' = num_agents45 s"
  using assms(1)
proof (induction n arbitrary: s')
  case 0
  then show ?case using assms(2) by simp
next
  case (Suc n)
  obtain s1 where r1: "run45 n s = Some s1" and st: "step45 s1 = Some s'"
    using Suc.prems by (auto split: option.splits)
  obtain qs js as where IH: "l_quiet s1 = l_quiet s @ qs" "l_jail s1 = l_jail s @ js" "l_active s1 = l_active s @ as"
    "length qs = n" "length js = n" "length as = n" "\<forall>k < n. qs ! k + js ! k + as ! k = num_agents45 s"
    "cops_free45 s1" "num_agents45 s1 = num_agents45 s"
    using Suc.IH[OF r1] by blast
  obtain q jl a where c: "l_quiet s' = l_quiet s1 @ [q]" "l_jail s' = l_jail s1 @ [jl]" "l_active s' = l_active s1 @ [a]"
    "q + jl + a = num_agents45 s1" "cops_free45 s'" "num_agents45 s' = num_agents45 s1"
    using step45_counts[OF st IH(8)] by blast
  have "\<forall>k < Suc n. (qs @ [q]) ! k + (js @ [jl]) ! k + (as @ [a]) ! k = num_agents45 s"
    using IH c by (auto simp: nth_append less_Suc_eq)
  then show ?case
    using IH c by (intro exI[of _ "qs @ [q]"] exI[of _ "js @ [jl]"] exI[of _ "as @ [a]"]) simp
qed

subsection \<open>Evaluation of concrete ticks\<close>

lemmas eval45 = step45_def act45_def move_agent45_def move_loop.simps draw_target_def randint_def
  randbelow_def is_position_valid_def determine_behavior45_def estimate45_def is_neighbor_def
  enforce45_def arrestable45_def choice_def arrest_probability_def activates_def grievance_def
  Let_def split_def

subsection \<open>Properties of the list-scan variant\<close>

text \<open>C17. Population conservation in \<open>model_v4.5_lwz.py\<close>: in every tick of every
  run that finishes, from a state whose cops are neither jailed nor active, the
  appended quiet, jailed and active counts add up to the number of agents. Counting
  during the pass still sees every agent exactly once.\<close>

theorem run45_conserves_population:
  assumes "cops_free45 s" and "run45 n s = Some s'" and "k < n"
  shows "l_quiet s' ! (length (l_quiet s) + k) + l_jail s' ! (length (l_jail s) + k) +
         l_active s' ! (length (l_active s) + k) = num_agents45 s"
proof -
  obtain qs js as where r: "l_quiet s' = l_quiet s @ qs" "l_jail s' = l_jail s @ js" "l_active s' = l_active s @ as"
    "\<forall>k < n. qs ! k + js ! k + as ! k = num_agents45 s"
    using run45_counts[OF assms(2,1)] by blast
  then show ?thesis using assms(3) by (simp add: nth_append)
qed

theorem run45_conserves_population_witness:
  "cops_free45 lone45 \<and> run45 2 lone45 \<noteq> None \<and> (1::nat) < 2 \<and>
   l_quiet (the (run45 2 lone45)) ! 1 + l_jail (the (run45 2 lone45)) ! 1 +
   l_active (the (run45 2 lone45)) ! 1 = 1"
proof -
  have c: "cops_free45 lone45" by (simp add: cops_free45_def lone45_def)
  have r: "run45 2 lone45 \<noteq> None"
    by (simp add: numeral_2_eq_2 lone45_def eval45)
  then have r': "run45 2 lone45 = Some (the (run45 2 lone45))" by simp
  have n: "num_agents45 lone45 = 1" by (simp add: num_agents45_def lone45_def)
  show ?thesis
    using run45_conserves_population[OF c r', of 1] c r n by (simp add: lone45_def)
qed

text \<open>C18. Termination of the resampling loop of \<open>move_agent\<close>: the loop returns
  exactly when some iteration draws a valid target, and then it returns the first
  such target with the stream advanced past that iteration. A state whose vision box
  holds no valid cell makes it run forever whatever the draws.\<close>

theorem move_loop_terminates:
  "(\<exists>c r'. move_loop s p r = Some (c, r')) \<longleftrightarrow> (\<exists>n. is_position_valid s (fst (draw_target s p (skip_draws r n))))"
proof
  assume "\<exists>c r'. move_loop s p r = Some (c, r')"
  then obtain res where "move_loop s p r = Some res" by blast
  then show "\<exists>n. is_position_valid s (fst (draw_target s p (skip_draws r n)))"
    using move_loop_returns_hit by blast
next
  assume "\<exists>n. is_position_valid s (fst (draw_target s p (skip_draws r n)))"
  then show "\<exists>c r'. move_loop s p r = Some (c, r')" using move_loop_hit by blast
qed

theorem move_loop_terminates_witness:
  "\<exists>c r'. move_loop lone45 (1, 1) (l_rs lone45) = Some (c, r')"
  using move_loop_terminates[of lone45 "(1, 1)" "l_rs lone45"]
  by (auto intro: exI[of _ 0] simp: lone45_def draw_target_def randint_def randbelow_def
      is_position_valid_def skip_draws_def Let_def split_def)

text \<open>C19. The tick of \<open>model_v4.5_lwz.py\<close> does not finish when the first entity
  is free and every cell of its vision box holds a cop or a free agent (its own cell
  always does: the mover itself): \<open>step\<close> loops forever, and so does every run.\<close>

theorem step45_surrounded_diverges:
  assumes "l_entities s \<noteq> []" and "jail_term (hd (l_entities s)) = 0" and "0 \<le> l_vision s"
    and "\<forall>d \<in> set (chebyshev_box (l_width s) (l_height s) (l_vision s) (position (hd (l_entities s)))).
           \<not> is_position_valid s d"
  shows "step45 s = None \<and> run45 (Suc n) s = None"
proof -
  let ?p = "position (hd (l_entities s))"
  have "move_loop s ?p (l_rs s) = None"
  proof (rule ccontr)
    assume "move_loop s ?p (l_rs s) \<noteq> None"
    then obtain res where "move_loop s ?p (l_rs s) = Some res" by blast
    then obtain k where "is_position_valid s (fst (draw_target s ?p (skip_draws (l_rs s) k)))"
      using move_loop_returns_hit by blast
    moreover have "fst (draw_target s ?p (skip_draws (l_rs s) k)) \<in>
        set (chebyshev_box (l_width s) (l_height s) (l_vision s) ?p)"
      using draw_target_box[OF assms(3)] by blast
    ultimately show False using assms(4) by blast
  qed
  then have "move_agent45 s 0 = None"
    using assms(1,2) by (simp add: move_agent45_def hd_conv_nth)
  then have a: "act45 (s, 0, 0, 0) 0 = None"
    using assms(1,2) by (simp add: act45_def Let_def hd_conv_nth)
  have u: "[0..<length (l_entities s)] = 0 # [Suc 0..<length (l_entities s)]"
    using assms(1) by (simp add: upt_conv_Cons)
  have st: "step45 s = None"
    using a by (simp add: step45_def u)
  have "run45 (Suc n) s = None"
    by (induction n) (simp_all add: st)
  then show ?thesis using st by simp
qed

theorem step45_surrounded_diverges_witness:
  "step45 full45 = None \<and> run45 200 full45 = None"
proof -
  have box: "\<forall>d \<in> set (chebyshev_box 3 1 1 (0, 0)). \<not> is_position_valid full45 d"
    by (simp add: chebyshev_box_def upto.simps is_position_valid_def full45_def)
  have "step45 full45 = None \<and> run45 (Suc 199) full45 = None"
    using step45_surrounded_diverges[of full45 199] box by (simp add: full45_def)
  then show ?thesis by simp
qed


text \<open>C21. \<open>move_agent\<close> of \<open>model_v4.5_lwz.py\<close>, when it returns, moves a free
  entity to a valid cell that is a Chebyshev neighbour of its old cell (within its
  vision box, wrapped), changes nothing but that entity's position and the random
  stream, and leaves a jailed entity where it is.\<close>

theorem move_agent45_moves:
  assumes "move_agent45 s i = Some s'" and "i < length (l_entities s)"
    and "0 \<le> l_vision s" and "0 < l_width s" and "0 < l_height s"
    and "in_bounds (l_width s) (l_height s) (position (l_entities s ! i))"
  shows "(0 < jail_term (l_entities s ! i) \<longrightarrow> s' = s) \<and>
    (jail_term (l_entities s ! i) = 0 \<longrightarrow>
       is_neighbor (l_width s) (l_height s) (l_vision s) (position (l_entities s ! i)) (position (l_entities s' ! i)) \<and>
       is_position_valid s (position (l_entities s' ! i)) \<and>
       l_entities s' = (l_entities s)[i := (l_entities s ! i)\<lparr>position := position (l_entities s' ! i)\<rparr>] \<and>
       s' = s\<lparr>l_entities := l_entities s', l_rs := l_rs s'\<rparr>)"
  using assms(1)
proof (cases rule: move_agent45_cases)
  case 1
  then show ?thesis by simp
next
  case (2 c r)
  let ?p = "position (l_entities s ! i)"
  obtain n where v: "is_position_valid s (fst (draw_target s ?p (skip_draws (l_rs s) n)))"
    and c: "(c, r) = (fst (draw_target s ?p (skip_draws (l_rs s) n)), skip_draws (l_rs s) (Suc n))"
    using move_loop_returns_hit[OF 2(2)] by blast
  have box: "c \<in> set (chebyshev_box (l_width s) (l_height s) (l_vision s) ?p)"
    using draw_target_box[OF assms(3)] c by simp
  then obtain dx dy where "c = ((fst ?p + dx) mod l_width s, (snd ?p + dy) mod l_height s)"
    unfolding mem_chebyshev_box by blast
  then have "in_bounds (l_width s) (l_height s) c" using assms(4,5) by simp
  then have "is_neighbor (l_width s) (l_height s) (l_vision s) ?p c"
    using is_neighbor_box[OF assms(4,5,6)] box by blast
  then show ?thesis using 2 v c assms(2) by simp
qed

theorem move_agent45_moves_witness:
  "move_agent45 lone45 0 \<noteq> None \<and>
   is_neighbor 3 3 1 (1, 1) (position (l_entities (the (move_agent45 lone45 0)) ! 0))"
proof -
  have m: "move_agent45 lone45 0 \<noteq> None" by (simp add: lone45_def eval45)
  then have "move_agent45 lone45 0 = Some (the (move_agent45 lone45 0))" by simp
  from move_agent45_moves[OF this] m show ?thesis by (simp add: lone45_def in_bounds_def)
qed

text \<open>C22. The two neighbourhood notions of spec 4.1 as the code has them: between
  cells of the grid, the Chebyshev test \<open>is_neighbor\<close> of \<open>model_v4.5_lwz.py\<close>
  holds exactly for the wrapped vision box, and the Euclidean disk table of the grid
  variants is contained in that box.\<close>

theorem neighbor_variants:
  assumes "0 < W" and "0 < H" and "in_bounds W H c"
  shows "(\<forall>d. in_bounds W H d \<longrightarrow> is_neighbor W H v c d \<longleftrightarrow> d \<in> set (chebyshev_box W H v c)) \<and>
    set (neighborhood W H v c) \<subseteq> set (chebyshev_box W H v c)"
proof
  show "\<forall>d. in_bounds W H d \<longrightarrow> is_neighbor W H v c d \<longleftrightarrow> d \<in> set (chebyshev_box W H v c)"
    using is_neighbor_box[OF assms] by blast
  show "set (neighborhood W H v c) \<subseteq> set (chebyshev_box W H v c)"
    unfolding mem_chebyshev_box mem_neighborhood subset_iff by blast
qed

theorem neighbor_variants_witness:
  "is_neighbor 40 40 1 (0, 0) (39, 39) \<and> (39, 39) \<in> set (chebyshev_box 40 40 1 (0, 0)) \<and>
   (39, 39) \<notin> set (neighborhood 40 40 1 (0, 0))"
proof -
  have "in_bounds 40 40 (0, 0)" "in_bounds 40 40 (39, 39)" by (simp_all add: in_bounds_def)
  moreover have "is_neighbor 40 40 1 (0, 0) (39, 39)" by (simp add: is_neighbor_def)
  moreover have "(39, 39) \<notin> set (neighborhood 40 40 1 (0, 0))"
    by (simp add: neighborhood_def upto.simps)
  ultimately show ?thesis using neighbor_variants[of 40 40 "(0, 0)" 1] by simp
qed

end
