(* ===== verification/Flag_Model.thy ===== *)
theory Flag_Model
  imports Grid_Model
begin

text \<open>
  The flag-grid variant \<open>src/model_v5.5_lwz copy.py\<close>. Its grid holds no turtles:
  each cell carries two booleans, \<open>'cops'\<close> and \<open>'active_agents'\<close>, which the
  operations set and clear as entities move, turn active and are arrested. Entities
  form a list that is never reordered; an agent caches its grievance on its first
  turn. The state is the record \<open>fmodel\<close>, a cell's dictionary the record
  \<open>flags\<close>, and a turtle the \<open>turtle\<close> record extended by the cached grievance
  (\<open>None\<close> until computed). Movement picks among the neighbourhood cells with
  neither flag, so several quiet agents may share a cell; \<open>enforce\<close> collects every
  agent of \<open>self.entities[:self.num_agents]\<close> standing on a flagged cell.
\<close>

record flags =
  fl_cops :: bool
  fl_active :: bool

record fturtle = turtle +
  grievance_cache :: "real option"

record fmodel =
  f_width :: int
  f_height :: int
  f_vision :: int
  f_grid :: "cell \<Rightarrow> flags"
  f_k :: real
  f_legitimacy :: real
  f_max_jail_term :: nat
  f_entities :: "fturtle list"
  f_num_agents :: nat
  f_num_cops :: nat
  f_neighborhoods :: "cell \<Rightarrow> cell list"
  f_quiet :: "nat list"
  f_jail :: "nat list"
  f_active :: "nat list"
  f_rs :: rng

subsection \<open>Movement\<close>

text \<open>\<open>move_agent(agent)\<close>: the neighbourhood cells with neither flag, one of them
  chosen; an active agent moves its \<open>'active_agents'\<close> flag along, a cop its
  \<open>'cops'\<close> flag, a quiet agent no flag at all.\<close>

definition free_cells55 :: "fmodel \<Rightarrow> cell \<Rightarrow> cell list" where
  "free_cells55 s p =
     filter (\<lambda>c. \<not> fl_cops (f_grid s c) \<and> \<not> fl_active (f_grid s c)) (f_neighborhoods s p)"

definition move_agent55 :: "fmodel \<Rightarrow> nat \<Rightarrow> fmodel" where
  "move_agent55 s i =
     (let t = f_entities s ! i; p = position t; valid = free_cells55 s p in
      if 0 < jail_term t then s
      else if valid = [] then s
      else
        let (c, r) = choice valid (f_rs s);
            s1 = s\<lparr>f_entities := (f_entities s)[i := t\<lparr>position := c\<rparr>], f_rs := r\<rparr>;
            g = f_grid s1
        in if etype t = AGENT \<and> active t then
             s1\<lparr>f_grid := let g1 = g(p := (g p)\<lparr>fl_active := False\<rparr>) in g1(c := (g1 c)\<lparr>fl_active := True\<rparr>)\<rparr>
           else if etype t = COP then
             s1\<lparr>f_grid := let g1 = g(p := (g p)\<lparr>fl_cops := False\<rparr>) in g1(c := (g1 c)\<lparr>fl_cops := True\<rparr>)\<rparr>
           else s1)"

subsection \<open>Behaviour\<close>

text \<open>\<open>estimate_arrest_probability(position)\<close>: the flagged cells of the
  neighbourhood, each counted once per flag.\<close>

definition estimate55 :: "fmodel \<Rightarrow> cell \<Rightarrow> real" where
  "estimate55 s p =
     arrest_probability (f_k s)
       (length (filter (\<lambda>c. fl_cops (f_grid s c)) (f_neighborhoods s p)))
       (length (filter (\<lambda>c. fl_active (f_grid s c)) (f_neighborhoods s p)))"

text \<open>\<open>determine_behavior(agent)\<close> with the cached grievance: turning active sets
  the cell's \<open>'active_agents'\<close> flag; turning quiet leaves the flag as it is.\<close>

definition determine_behavior55 :: "fmodel \<Rightarrow> nat \<Rightarrow> fmodel" where
  "determine_behavior55 s i =
     (let t = f_entities s ! i; p = position t;
          ap = estimate55 s p
      in if the (grievance_cache t) - risk_aversion t * ap > 0.1 then
           s\<lparr>f_entities := (f_entities s)[i := t\<lparr>active := True\<rparr>],
             f_grid := (f_grid s)(p := (f_grid s p)\<lparr>fl_active := True\<rparr>)\<rparr>
         else s\<lparr>f_entities := (f_entities s)[i := t\<lparr>active := False\<rparr>]\<rparr>)"

subsection \<open>Enforcement\<close>

text \<open>The list \<open>active_agents\<close> of \<open>enforce\<close>: for each neighbourhood cell whose
  \<open>'active_agents'\<close> flag is set, every agent of \<open>self.entities[:self.num_agents]\<close>
  standing there, whether active or not.\<close>

definition candidates55 :: "fmodel \<Rightarrow> cell \<Rightarrow> nat list" where
  "candidates55 s p =
     concat (map (\<lambda>c. if fl_active (f_grid s c)
                       then filter (\<lambda>j. position (f_entities s ! j) = c) [0..<min (f_num_agents s) (length (f_entities s))]
                       else [])
       (f_neighborhoods s p))"

definition enforce55 :: "fmodel \<Rightarrow> nat \<Rightarrow> fmodel" where
  "enforce55 s i =
     (let cop = f_entities s ! i; p = position cop; cands = candidates55 s p in
      if cands = [] then s
      else
        let (j, r1) = choice cands (f_rs s);
            c = position (f_entities s ! j);
            es1 = (f_entities s)[i := cop\<lparr>position := c\<rparr>];
            (jt, r2) = randint 0 (int (f_max_jail_term s)) r1;
            es2 = es1[j := (es1 ! j)\<lparr>active := False, jail_term := nat jt\<rparr>];
            g = f_grid s;
            g1 = g(p := (g p)\<lparr>fl_cops := False\<rparr>);
            g2 = g1(c := (g1 c)\<lparr>fl_cops := True\<rparr>);
            g3 = g2(c := (g2 c)\<lparr>fl_active := False\<rparr>)
        in s\<lparr>f_entities := es2, f_grid := g3, f_rs := r2\<rparr>)"

subsection \<open>The step\<close>

text \<open>The body of the action loop of \<open>step\<close>: a jailed agent serves a tick; a free
  agent caches its grievance if it has none, moves and decides; a cop moves and
  enforces.\<close>

definition act55 :: "fmodel \<Rightarrow> nat \<Rightarrow> fmodel" where
  "act55 s i =
     (let t = f_entities s ! i in
      if etype t = AGENT then
        if 0 < jail_term t then s\<lparr>f_entities := (f_entities s)[i := t\<lparr>jail_term := jail_term t - 1\<rparr>]\<rparr>
        else
          let s1 = (if grievance_cache t = None
                    then s\<lparr>f_entities := (f_entities s)[i :=
                           t\<lparr>grievance_cache := Some (grievance (hardship t) (f_legitimacy s))\<rparr>]\<rparr>
                    else s)
          in determine_behavior55 (move_agent55 s1 i) i
      else enforce55 (move_agent55 s i) i)"

text \<open>The counting loop after the actions: a jailed entity, then an active or a
  quiet agent.\<close>

definition tally55 :: "nat \<times> nat \<times> nat \<Rightarrow> fturtle \<Rightarrow> nat \<times> nat \<times> nat" where
  "tally55 acc e =
     (let (q, jl, a) = acc in
      if 0 < jail_term e then (q, Suc jl, a)
      else if etype e = AGENT then (if active e then (q, jl, Suc a) else (Suc q, jl, a))
      else (q, jl, a))"

definition step55 :: "fmodel \<Rightarrow> fmodel" where
  "step55 s =
     (let s1 = fold (\<lambda>i s. act55 s i) [0..<length (f_entities s)] s;
          (q, jl, a) = foldl tally55 (0, 0, 0) (f_entities s1)
      in s1\<lparr>f_quiet := f_quiet s1 @ [q], f_jail := f_jail s1 @ [jl], f_active := f_active s1 @ [a]\<rparr>)"

definition run55 :: "nat \<Rightarrow> fmodel \<Rightarrow> fmodel" where
  "run55 n = step55 ^^ n"

subsection \<open>A concrete configuration\<close>

text \<open>A 4 x 4 torus, vision 1. Two quiet agents share the cell (0, 0): agent 0 with
  hardship 0.1, whose grievance 0.07 can never exceed the threshold 0.1, and agent 1
  with hardship 0.9; a cop stands at (1, 1) under its flag. The draws keep both
  agents on (0, 0), send the cop to (0, 1), let it choose the first candidate and
  give a jail term of 5.\<close>

definition share55 :: fmodel where
  "share55 = \<lparr>f_width = 4, f_height = 4, f_vision = 1,
     f_grid = (\<lambda>c. \<lparr>fl_cops = (c = (1, 1)), fl_active = False\<rparr>),
     f_k = 2.3, f_legitimacy = 0.3, f_max_jail_term = 30,
     f_entities = [\<lparr>agent_id = 0, etype = AGENT, turtle_vision = 1, risk_aversion = 0.5, hardship = 0.1,
                     adjusted_hardship = 0.1, active = False, jail_term = 0, position = (0, 0), grievance_cache = None\<rparr>,
                   \<lparr>agent_id = 1, etype = AGENT, turtle_vision = 1, risk_aversion = 0.5, hardship = 0.9,
                     adjusted_hardship = 0.9, active = False, jail_term = 0, position = (0, 0), grievance_cache = None\<rparr>,
                   \<lparr>agent_id = 2, etype = COP, turtle_vision = 1, risk_aversion = 0, hardship = 0,
                     adjusted_hardship = 0, active = False, jail_term = 0, position = (1, 1), grievance_cache = None\<rparr>],
     f_num_agents = 2, f_num_cops = 1, f_neighborhoods = compute_neighborhoods 4 4 1,
     f_quiet = [], f_jail = [], f_active = [],
     f_rs = \<lparr>draws = (\<lambda>n. if n \<le> 1 then 2 else if n = 4 then 5 else 0), rpos = 0\<rparr>\<rparr>"

subsection \<open>Invariants and frame\<close>

text \<open>The construction puts the agents first: the first \<open>num_agents\<close> entities are
  agents (the slice that \<open>enforce\<close> scans); cops are never jailed nor active; a
  cached grievance is \<open>hardship * (1 - legitimacy)\<close>.\<close>

definition agents_first55 :: "fmodel \<Rightarrow> bool" where
  "agents_first55 s = (\<forall>j < min (f_num_agents s) (length (f_entities s)). etype (f_entities s ! j) = AGENT)"

definition cops_free55 :: "fmodel \<Rightarrow> bool" where
  "cops_free55 s = list_all (\<lambda>e. etype e = COP \<longrightarrow> jail_term e = 0 \<and> \<not> active e) (f_entities s)"

definition cache_sound55 :: "fmodel \<Rightarrow> bool" where
  "cache_sound55 s =
     list_all (\<lambda>e. grievance_cache e = None \<or> grievance_cache e = Some (grievance (hardship e) (f_legitimacy s)))
       (f_entities s)"

definition inv55 :: "fmodel \<Rightarrow> bool" where
  "inv55 s \<longleftrightarrow> agents_first55 s \<and> cops_free55 s \<and> cache_sound55 s"

definition frame55 :: "fmodel \<Rightarrow> fmodel \<Rightarrow> bool" where
  "frame55 s s' \<longleftrightarrow>
     f_width s' = f_width s \<and> f_height s' = f_height s \<and> f_vision s' = f_vision s \<and> f_k s' = f_k s \<and>
     f_legitimacy s' = f_legitimacy s \<and> f_max_jail_term s' = f_max_jail_term s \<and>
     f_num_agents s' = f_num_agents s \<and> f_num_cops s' = f_num_cops s \<and>
     f_neighborhoods s' = f_neighborhoods s \<and> f_quiet s' = f_quiet s \<and> f_jail s' = f_jail s \<and>
     f_active s' = f_active s \<and>
     map etype (f_entities s') = map etype (f_entities s) \<and> map hardship (f_entities s') = map hardship (f_entities s)"

definition num_agents55 :: "fmodel \<Rightarrow> nat" where
  "num_agents55 s = length (filter (\<lambda>e. etype e = AGENT) (f_entities s))"

subsection \<open>Frame and invariant\<close>

lemma frame55_refl [simp]: "frame55 s s"
  by (simp add: frame55_def)

lemma frame55_trans: "frame55 s s1 \<Longrightarrow> frame55 s1 s2 \<Longrightarrow> frame55 s s2"
  by (simp add: frame55_def)

lemma frame55_length: "frame55 s s' \<Longrightarrow> length (f_entities s') = length (f_entities s)"
  unfolding frame55_def by (metis length_map)

lemma frame55_etype:
  "frame55 s s' \<Longrightarrow> i < length (f_entities s) \<Longrightarrow> etype (f_entities s' ! i) = etype (f_entities s ! i)"
  unfolding frame55_def by (metis length_map nth_map)

lemma agents_first55_frame: "frame55 s s' \<Longrightarrow> agents_first55 s' = agents_first55 s"
  using frame55_length[of s s'] frame55_etype[of s s'] by (simp add: agents_first55_def frame55_def)

lemma inv55_upd:
  assumes "inv55 s" and "i < length (f_entities s)"
    and "etype e = etype (f_entities s ! i)" and "hardship e = hardship (f_entities s ! i)"
    and "etype e = COP \<longrightarrow> jail_term e = 0 \<and> \<not> active e"
    and "grievance_cache e = None \<or> grievance_cache e = Some (grievance (hardship e) (f_legitimacy s))"
  shows "frame55 s (s\<lparr>f_entities := (f_entities s)[i := e], f_grid := g, f_rs := r\<rparr>) \<and>
    inv55 (s\<lparr>f_entities := (f_entities s)[i := e], f_grid := g, f_rs := r\<rparr>)"
proof -
  let ?s' = "s\<lparr>f_entities := (f_entities s)[i := e], f_grid := g, f_rs := r\<rparr>"
  have fr: "frame55 s ?s'"
    using assms(2,3,4) by (simp add: frame55_def map_update_same)
  have "agents_first55 ?s'" using assms(1) agents_first55_frame[OF fr] by (simp add: inv55_def)
  moreover have "cops_free55 ?s'"
    using assms(1,5) by (simp add: inv55_def cops_free55_def list_all_update_same)
  moreover have "cache_sound55 ?s'"
    using assms(1,6) by (simp add: inv55_def cache_sound55_def list_all_update_same)
  ultimately show ?thesis using fr by (simp add: inv55_def)
qed

lemma inv55_nth:
  assumes "inv55 s" and "i < length (f_entities s)"
  shows "(etype (f_entities s ! i) = COP \<longrightarrow> jail_term (f_entities s ! i) = 0 \<and> \<not> active (f_entities s ! i)) \<and>
    (grievance_cache (f_entities s ! i) = None \<or>
     grievance_cache (f_entities s ! i) = Some (grievance (hardship (f_entities s ! i)) (f_legitimacy s))) \<and>
    (i < f_num_agents s \<longrightarrow> etype (f_entities s ! i) = AGENT)"
  using assms by (auto simp: inv55_def cops_free55_def cache_sound55_def agents_first55_def list_all_length)

lemma move_agent55_inv:
  assumes "inv55 s" and "i < length (f_entities s)"
  shows "frame55 s (move_agent55 s i) \<and> inv55 (move_agent55 s i)"
proof -
  let ?t = "f_entities s ! i"
  let ?v = "free_cells55 s (position ?t)"
  show ?thesis
  proof (cases "0 < jail_term ?t \<or> ?v = []")
    case True
    then have "move_agent55 s i = s" by (auto simp: move_agent55_def Let_def)
    then show ?thesis using assms(1) by simp
  next
    case False
    obtain c r where cr: "choice ?v (f_rs s) = (c, r)" by (metis prod.exhaust)
    define g where "g = (let g0 = f_grid s; p = position ?t in
      if etype ?t = AGENT \<and> active ?t then (let g1 = g0(p := (g0 p)\<lparr>fl_active := False\<rparr>) in g1(c := (g1 c)\<lparr>fl_active := True\<rparr>))
      else if etype ?t = COP then (let g1 = g0(p := (g0 p)\<lparr>fl_cops := False\<rparr>) in g1(c := (g1 c)\<lparr>fl_cops := True\<rparr>))
      else g0)"
    have eq: "move_agent55 s i = s\<lparr>f_entities := (f_entities s)[i := ?t\<lparr>position := c\<rparr>], f_grid := g, f_rs := r\<rparr>"
      using False cr by (simp add: move_agent55_def g_def Let_def)
    show ?thesis
      unfolding eq using inv55_nth[OF assms] by (intro inv55_upd[OF assms]) auto
  qed
qed

lemma determine_behavior55_inv:
  assumes "inv55 s" and "i < length (f_entities s)" and "etype (f_entities s ! i) = AGENT"
  shows "frame55 s (determine_behavior55 s i) \<and> inv55 (determine_behavior55 s i)"
proof -
  let ?t = "f_entities s ! i"
  define b where "b = (the (grievance_cache ?t) - risk_aversion ?t * estimate55 s (position ?t) > 0.1)"
  define g where "g = (if b then (f_grid s)(position ?t := (f_grid s (position ?t))\<lparr>fl_active := True\<rparr>) else f_grid s)"
  have eq: "determine_behavior55 s i =
      s\<lparr>f_entities := (f_entities s)[i := ?t\<lparr>active := b\<rparr>], f_grid := g, f_rs := f_rs s\<rparr>"
    by (simp add: determine_behavior55_def Let_def b_def g_def)
  show ?thesis
    unfolding eq using inv55_nth[OF assms(1,2)] assms(3) by (intro inv55_upd[OF assms(1,2)]) auto
qed

lemma candidates55_mem:
  "j \<in> set (candidates55 s p) \<longleftrightarrow>
   j < min (f_num_agents s) (length (f_entities s)) \<and> position (f_entities s ! j) \<in> set (f_neighborhoods s p) \<and>
   fl_active (f_grid s (position (f_entities s ! j)))"
  by (auto simp: candidates55_def split: if_splits)

lemma enforce55_cases:
  obtains "enforce55 s i = s"
  | j jt g r where "j \<in> set (candidates55 s (position (f_entities s ! i)))"
    "enforce55 s i = s\<lparr>f_entities := ((f_entities s)[i := (f_entities s ! i)\<lparr>position := position (f_entities s ! j)\<rparr>])
        [j := ((f_entities s)[i := (f_entities s ! i)\<lparr>position := position (f_entities s ! j)\<rparr>] ! j)\<lparr>active := False, jail_term := jt\<rparr>],
       f_grid := g, f_rs := r\<rparr>"
proof (cases "candidates55 s (position (f_entities s ! i)) = []")
  case True
  then show ?thesis using that(1) by (simp add: enforce55_def)
next
  case False
  let ?cs = "candidates55 s (position (f_entities s ! i))"
  have "fst (choice ?cs (f_rs s)) \<in> set ?cs" using False by (rule choice_mem)
  then show ?thesis
    using False that(2)[of "fst (choice ?cs (f_rs s))"] by (simp add: enforce55_def Let_def split_def)
qed

lemma enforce55_inv:
  assumes "inv55 s" and "i < length (f_entities s)"
  shows "frame55 s (enforce55 s i) \<and> inv55 (enforce55 s i)"
proof (cases rule: enforce55_cases[of s i])
  case 1
  then show ?thesis using assms(1) by simp
next
  case (2 j jt g r)
  let ?e1 = "(f_entities s ! i)\<lparr>position := position (f_entities s ! j)\<rparr>"
  let ?s1 = "s\<lparr>f_entities := (f_entities s)[i := ?e1], f_grid := f_grid s, f_rs := f_rs s\<rparr>"
  have j: "j < length (f_entities s)" "j < f_num_agents s"
    using 2(1) by (simp_all add: candidates55_mem)
  have h1: "frame55 s ?s1 \<and> inv55 ?s1"
    using inv55_nth[OF assms] by (intro inv55_upd[OF assms]) auto
  then have i1: "inv55 ?s1" and l1: "j < length (f_entities ?s1)" and n1: "j < f_num_agents ?s1"
    using j by (simp_all add: frame55_def)
  have h2: "frame55 ?s1 (?s1\<lparr>f_entities := (f_entities ?s1)[j := (f_entities ?s1 ! j)\<lparr>active := False, jail_term := jt\<rparr>],
      f_grid := g, f_rs := r\<rparr>) \<and>
    inv55 (?s1\<lparr>f_entities := (f_entities ?s1)[j := (f_entities ?s1 ! j)\<lparr>active := False, jail_term := jt\<rparr>],
      f_grid := g, f_rs := r\<rparr>)"
    using inv55_nth[OF i1 l1] n1 by (intro inv55_upd[OF i1 l1]) auto
  have e: "enforce55 s i = ?s1\<lparr>f_entities := (f_entities ?s1)[j := (f_entities ?s1 ! j)\<lparr>active := False, jail_term := jt\<rparr>],
      f_grid := g, f_rs := r\<rparr>"
    unfolding 2(2) by simp
  show ?thesis
    unfolding e using h1 h2 by (blast intro: frame55_trans)
qed

lemma act55_inv:
  assumes "inv55 s" and "i < length (f_entities s)"
  shows "frame55 s (act55 s i) \<and> inv55 (act55 s i)"
proof -
  let ?t = "f_entities s ! i"
  show ?thesis
  proof (cases "etype ?t")
    case AGENT
    show ?thesis
    proof (cases "0 < jail_term ?t")
      case True
      have eq: "act55 s i = s\<lparr>f_entities := (f_entities s)[i := ?t\<lparr>jail_term := jail_term ?t - 1\<rparr>],
          f_grid := f_grid s, f_rs := f_rs s\<rparr>"
        using AGENT True by (simp add: act55_def Let_def)
      show ?thesis
        unfolding eq using inv55_nth[OF assms] AGENT by (intro inv55_upd[OF assms]) auto
    next
      case False
      define s1 where "s1 = (if grievance_cache ?t = None
          then s\<lparr>f_entities := (f_entities s)[i := ?t\<lparr>grievance_cache := Some (grievance (hardship ?t) (f_legitimacy s))\<rparr>],
                 f_grid := f_grid s, f_rs := f_rs s\<rparr>
          else s)"
      have eq: "act55 s i = determine_behavior55 (move_agent55 s1 i) i"
        using AGENT False by (simp add: act55_def s1_def Let_def)
      have h1: "frame55 s s1 \<and> inv55 s1"
      proof (cases "grievance_cache ?t = None")
        case True
        have "frame55 s (s\<lparr>f_entities := (f_entities s)[i := ?t\<lparr>grievance_cache := Some (grievance (hardship ?t) (f_legitimacy s))\<rparr>],
                 f_grid := f_grid s, f_rs := f_rs s\<rparr>) \<and>
              inv55 (s\<lparr>f_entities := (f_entities s)[i := ?t\<lparr>grievance_cache := Some (grievance (hardship ?t) (f_legitimacy s))\<rparr>],
                 f_grid := f_grid s, f_rs := f_rs s\<rparr>)"
          using inv55_nth[OF assms] by (intro inv55_upd[OF assms]) auto
        then show ?thesis using True by (simp only: s1_def if_True simp_thms)
      next
        case False
        then have "s1 = s" unfolding s1_def by (simp only: False if_False)
        then show ?thesis using assms(1) by simp
      qed
      then have l1: "i < length (f_entities s1)" using assms(2) frame55_length by metis
      have h2: "frame55 s1 (move_agent55 s1 i) \<and> inv55 (move_agent55 s1 i)"
        using move_agent55_inv h1 l1 by blast
      have l2: "i < length (f_entities (move_agent55 s1 i))" and a2: "etype (f_entities (move_agent55 s1 i) ! i) = AGENT"
        using h1 h2 l1 assms(2) AGENT frame55_length frame55_etype by metis+
      have h3: "frame55 (move_agent55 s1 i) (act55 s i) \<and> inv55 (act55 s i)"
        unfolding eq using determine_behavior55_inv h2 l2 a2 by blast
      show ?thesis using h1 h2 h3 frame55_trans by blast
    qed
  next
    case COP
    have eq: "act55 s i = enforce55 (move_agent55 s i) i" using COP by (simp add: act55_def)
    have h1: "frame55 s (move_agent55 s i) \<and> inv55 (move_agent55 s i)"
      using move_agent55_inv[OF assms] .
    then have l1: "i < length (f_entities (move_agent55 s i))" using assms(2) frame55_length by metis
    have "frame55 (move_agent55 s i) (act55 s i) \<and> inv55 (act55 s i)"
      unfolding eq using enforce55_inv h1 l1 by blast
    then show ?thesis using h1 frame55_trans by blast
  qed
qed

lemma actions55_inv:
  assumes "inv55 s"
  shows "frame55 s (fold (\<lambda>i s. act55 s i) [0..<length (f_entities s)] s) \<and>
    inv55 (fold (\<lambda>i s. act55 s i) [0..<length (f_entities s)] s)"
proof (rule fold_invariant[where P = "\<lambda>s'. frame55 s s' \<and> inv55 s'"])
  show "frame55 s s \<and> inv55 s" using assms by simp
next
  fix i s'
  assume "i \<in> set [0..<length (f_entities s)]" and h: "frame55 s s' \<and> inv55 s'"
  then have "i < length (f_entities s')" using frame55_length by fastforce
  then show "frame55 s (act55 s' i) \<and> inv55 (act55 s' i)"
    using act55_inv h frame55_trans by blast
qed

lemma tally55_foldl:
  "foldl tally55 (q, jl, a) es = (q', jl', a') \<Longrightarrow>
   q' + jl' + a' = q + jl + a + length (filter (\<lambda>e. 0 < jail_term e \<or> etype e = AGENT) es)"
proof (induction es arbitrary: q jl a)
  case Nil
  then show ?case by simp
next
  case (Cons e es)
  obtain q1 jl1 a1 where t: "tally55 (q, jl, a) e = (q1, jl1, a1)" by (metis prod.exhaust)
  have "q1 + jl1 + a1 = q + jl + a + (if 0 < jail_term e \<or> etype e = AGENT then 1 else 0)"
    using t by (auto simp: tally55_def split: if_splits)
  then show ?case using Cons.IH[of q1 jl1 a1] Cons.prems t by simp
qed

lemma num_agents55_frame: "frame55 s s' \<Longrightarrow> num_agents55 s' = num_agents55 s"
proof -
  assume "frame55 s s'"
  then have "map etype (f_entities s') = map etype (f_entities s)" by (simp add: frame55_def)
  then have "length (filter (\<lambda>t. t = AGENT) (map etype (f_entities s'))) =
      length (filter (\<lambda>t. t = AGENT) (map etype (f_entities s)))" by simp
  then show ?thesis by (simp add: num_agents55_def filter_map comp_def)
qed

lemma step55_counts:
  assumes "inv55 s"
  shows "\<exists>q jl a. f_quiet (step55 s) = f_quiet s @ [q] \<and> f_jail (step55 s) = f_jail s @ [jl] \<and>
    f_active (step55 s) = f_active s @ [a] \<and> q + jl + a = num_agents55 s \<and>
    inv55 (step55 s) \<and> num_agents55 (step55 s) = num_agents55 s"
proof -
  define s1 where "s1 = fold (\<lambda>i s. act55 s i) [0..<length (f_entities s)] s"
  have h: "frame55 s s1" "inv55 s1" using actions55_inv[OF assms] by (simp_all add: s1_def)
  obtain q jl a where t: "foldl tally55 (0, 0, 0) (f_entities s1) = (q, jl, a)" by (metis prod.exhaust)
  have "filter (\<lambda>e. 0 < jail_term e \<or> etype e = AGENT) (f_entities s1) = filter (\<lambda>e. etype e = AGENT) (f_entities s1)"
  proof (intro filter_cong refl)
    fix e assume e: "e \<in> set (f_entities s1)"
    have "etype e = COP \<longrightarrow> jail_term e = 0 \<and> \<not> active e"
      using h(2) e by (simp add: inv55_def cops_free55_def list_all_iff)
    then show "(0 < jail_term e \<or> etype e = AGENT) = (etype e = AGENT)" by (cases "etype e") auto
  qed
  then have "q + jl + a = num_agents55 s1" using tally55_foldl[OF t] by (simp add: num_agents55_def)
  moreover have st: "step55 s = s1\<lparr>f_quiet := f_quiet s1 @ [q], f_jail := f_jail s1 @ [jl], f_active := f_active s1 @ [a]\<rparr>"
    using t by (simp add: step55_def s1_def Let_def)
  moreover have "inv55 (step55 s)" using h(2) st
    by (simp add: inv55_def agents_first55_def cops_free55_def cache_sound55_def)
  moreover have "num_agents55 (step55 s) = num_agents55 s1" using st by (simp add: num_agents55_def)
  ultimately show ?thesis
    using h(1) num_agents55_frame[OF h(1)] by (simp add: frame55_def)
qed

lemma run55_Suc: "run55 (Suc n) s = step55 (run55 n s)"
  by (simp add: run55_def)

lemma run55_counts:
  assumes "inv55 s"
  shows "\<exists>qs js as. f_quiet (run55 n s) = f_quiet s @ qs \<and> f_jail (run55 n s) = f_jail s @ js \<and>
    f_active (run55 n s) = f_active s @ as \<and> length qs = n \<and> length js = n \<and> length as = n \<and>
    (\<forall>k < n. qs ! k + js ! k + as ! k = num_agents55 s) \<and> inv55 (run55 n s) \<and> num_agents55 (run55 n s) = num_agents55 s"
proof (induction n)
  case 0
  then show ?case using assms by (simp add: run55_def)
next
  case (Suc n)
  then obtain qs js as where IH: "f_quiet (run55 n s) = f_quiet s @ qs" "f_jail (run55 n s) = f_jail s @ js"
    "f_active (run55 n s) = f_active s @ as" "length qs = n" "length js = n" "length as = n"
    "\<forall>k < n. qs ! k + js ! k + as ! k = num_agents55 s" "inv55 (run55 n s)" "num_agents55 (run55 n s) = num_agents55 s"
    by blast
  obtain q jl a where c: "f_quiet (step55 (run55 n s)) = f_quiet (run55 n s) @ [q]"
    "f_jail (step55 (run55 n s)) = f_jail (run55 n s) @ [jl]" "f_active (step55 (run55 n s)) = f_active (run55 n s) @ [a]"
    "q + jl + a = num_agents55 (run55 n s)" "inv55 (step55 (run55 n s))"
    "num_agents55 (step55 (run55 n s)) = num_agents55 (run55 n s)"
    using step55_counts[OF IH(8)] by blast
  have "\<forall>k < Suc n. (qs @ [q]) ! k + (js @ [jl]) ! k + (as @ [a]) ! k = num_agents55 s"
    using IH c by (auto simp: nth_append less_Suc_eq)
  then show ?case
    using IH c by (intro exI[of _ "qs @ [q]"] exI[of _ "js @ [jl]"] exI[of _ "as @ [a]"]) (simp add: run55_Suc)
qed

subsection \<open>Evaluation of the concrete tick\<close>

lemma compute_neighborhoods_apply:
  "compute_neighborhoods W H v c = (if in_bounds W H c then neighborhood W H v c else [])"
  by (simp add: compute_neighborhoods_def)

lemma share55_fields:
  "f_width share55 = 4" "f_height share55 = 4" "f_vision share55 = 1" "f_k share55 = 2.3"
  "f_legitimacy share55 = 0.3" "f_max_jail_term share55 = 30" "f_num_agents share55 = 2"
  "f_neighborhoods share55 = compute_neighborhoods 4 4 1"
  "f_grid share55 = (\<lambda>c. \<lparr>fl_cops = (c = (1, 1)), fl_active = False\<rparr>)"
  "f_entities share55 = [\<lparr>agent_id = 0, etype = AGENT, turtle_vision = 1, risk_aversion = 0.5, hardship = 0.1,
                     adjusted_hardship = 0.1, active = False, jail_term = 0, position = (0, 0), grievance_cache = None\<rparr>,
                   \<lparr>agent_id = 1, etype = AGENT, turtle_vision = 1, risk_aversion = 0.5, hardship = 0.9,
                     adjusted_hardship = 0.9, active = False, jail_term = 0, position = (0, 0), grievance_cache = None\<rparr>,
                   \<lparr>agent_id = 2, etype = COP, turtle_vision = 1, risk_aversion = 0, hardship = 0,
                     adjusted_hardship = 0, active = False, jail_term = 0, position = (1, 1), grievance_cache = None\<rparr>]"
  "f_rs share55 = \<lparr>draws = (\<lambda>n. if n \<le> 1 then 2 else if n = 4 then 5 else 0), rpos = 0\<rparr>"
  "f_quiet share55 = []" "f_jail share55 = []" "f_active share55 = []"
  by (simp_all add: share55_def)





subsection \<open>Properties of the flag-grid variant\<close>

text \<open>C23. Population conservation in \<open>model_v5.5_lwz copy.py\<close>: from a state whose
  first \<open>num_agents\<close> entities are agents, whose cops are calm and whose cached
  grievances are correct, every tick of every run appends quiet, jailed and active
  counts that add up to the number of agents.\<close>

theorem run55_conserves_population:
  assumes "inv55 s" and "k < n"
  shows "f_quiet (run55 n s) ! (length (f_quiet s) + k) + f_jail (run55 n s) ! (length (f_jail s) + k) +
         f_active (run55 n s) ! (length (f_active s) + k) = num_agents55 s"
proof -
  obtain qs js as where r: "f_quiet (run55 n s) = f_quiet s @ qs" "f_jail (run55 n s) = f_jail s @ js"
    "f_active (run55 n s) = f_active s @ as" "\<forall>k < n. qs ! k + js ! k + as ! k = num_agents55 s"
    using run55_counts[OF assms(1)] by blast
  then show ?thesis using assms(2) by (simp add: nth_append)
qed

theorem run55_conserves_population_witness:
  "inv55 share55 \<and> (0::nat) < 1 \<and>
   f_quiet (run55 1 share55) ! 0 + f_jail (run55 1 share55) ! 0 + f_active (run55 1 share55) ! 0 = 2"
proof -
  have i: "inv55 share55"
    by (simp add: inv55_def agents_first55_def cops_free55_def cache_sound55_def share55_fields less_Suc_eq)
  have n: "num_agents55 share55 = 2" by (simp add: num_agents55_def share55_fields)
  show ?thesis
    using run55_conserves_population[OF i, of 0 1] i n by (simp add: share55_fields)
qed

text \<open>C24. \<open>enforce\<close> of \<open>model_v5.5_lwz copy.py\<close> collects every agent among the
  first \<open>num_agents\<close> entities that stands on a neighbourhood cell with the
  \<open>'active_agents'\<close> flag, whether it is active or not. Without such an agent nothing
  changes; otherwise one of them is deactivated and given a jail term within
  \<open>[0, max_jail_term]\<close>, the cop takes its position, the cell's \<open>'cops'\<close> flag is set
  and its \<open>'active_agents'\<close> flag cleared, and the invariant is kept.\<close>

theorem enforce55_arrests_flagged:
  assumes "inv55 s" and "i < length (f_entities s)"
  defines "cs \<equiv> candidates55 s (position (f_entities s ! i))"
  shows "(\<forall>j. j \<in> set cs \<longleftrightarrow> j < min (f_num_agents s) (length (f_entities s)) \<and>
             position (f_entities s ! j) \<in> set (f_neighborhoods s (position (f_entities s ! i))) \<and>
             fl_active (f_grid s (position (f_entities s ! j)))) \<and>
    (cs = [] \<longrightarrow> enforce55 s i = s) \<and>
    (cs \<noteq> [] \<longrightarrow> (\<exists>j \<in> set cs.
       \<not> active (f_entities (enforce55 s i) ! j) \<and> jail_term (f_entities (enforce55 s i) ! j) \<le> f_max_jail_term s \<and>
       position (f_entities (enforce55 s i) ! i) = position (f_entities s ! j) \<and>
       fl_cops (f_grid (enforce55 s i) (position (f_entities s ! j))) \<and>
       \<not> fl_active (f_grid (enforce55 s i) (position (f_entities s ! j))) \<and>
       inv55 (enforce55 s i)))"
proof (intro conjI impI)
  show "\<forall>j. j \<in> set cs \<longleftrightarrow> j < min (f_num_agents s) (length (f_entities s)) \<and>
      position (f_entities s ! j) \<in> set (f_neighborhoods s (position (f_entities s ! i))) \<and>
      fl_active (f_grid s (position (f_entities s ! j)))"
    unfolding cs_def by (simp add: candidates55_mem)
  show "cs = [] \<Longrightarrow> enforce55 s i = s" unfolding cs_def by (simp add: enforce55_def)
next
  assume ne: "cs \<noteq> []"
  define j where "j = fst (choice cs (f_rs s))"
  define r1 where "r1 = snd (choice cs (f_rs s))"
  define jt where "jt = fst (randint 0 (int (f_max_jail_term s)) r1)"
  let ?c = "position (f_entities s ! j)"
  let ?es1 = "(f_entities s)[i := (f_entities s ! i)\<lparr>position := ?c\<rparr>]"
  have jm: "j \<in> set cs" unfolding j_def using ne by (rule choice_mem)
  then have jl: "j < length (f_entities s)" by (simp add: cs_def candidates55_mem)
  have jt: "0 \<le> jt" "jt \<le> int (f_max_jail_term s)" using randint_bounds[of 0 "int (f_max_jail_term s)" r1]
    by (simp_all add: jt_def)
  have e: "f_entities (enforce55 s i) = ?es1[j := (?es1 ! j)\<lparr>active := False, jail_term := nat jt\<rparr>]"
    using ne by (simp add: enforce55_def Let_def split_def cs_def[symmetric] j_def r1_def jt_def)
  have g: "f_grid (enforce55 s i) ?c = \<lparr>fl_cops = True, fl_active = False\<rparr>"
    using ne by (simp add: enforce55_def Let_def split_def cs_def[symmetric] j_def)
  have p: "position (f_entities (enforce55 s i) ! i) = ?c"
    using e jl assms(2) by (cases "i = j") (simp_all add: nth_list_update)
  have "\<not> active (f_entities (enforce55 s i) ! j) \<and> jail_term (f_entities (enforce55 s i) ! j) \<le> f_max_jail_term s"
    using e jl jt by simp
  then show "\<exists>j \<in> set cs. \<not> active (f_entities (enforce55 s i) ! j) \<and>
      jail_term (f_entities (enforce55 s i) ! j) \<le> f_max_jail_term s \<and>
      position (f_entities (enforce55 s i) ! i) = position (f_entities s ! j) \<and>
      fl_cops (f_grid (enforce55 s i) (position (f_entities s ! j))) \<and>
      \<not> fl_active (f_grid (enforce55 s i) (position (f_entities s ! j))) \<and> inv55 (enforce55 s i)"
    using jm p g enforce55_inv[OF assms(1,2)] by (intro bexI[of _ j]) simp_all
qed

theorem enforce55_arrests_flagged_witness:
  "inv55 share55 \<and> (2::nat) < length (f_entities share55) \<and>
   candidates55 share55 (position (f_entities share55 ! 2)) = [] \<and> enforce55 share55 2 = share55"
proof -
  have i: "inv55 share55"
    by (simp add: inv55_def agents_first55_def cops_free55_def cache_sound55_def share55_fields less_Suc_eq)
  have c: "candidates55 share55 (position (f_entities share55 ! 2)) = []"
    by (simp add: candidates55_def share55_fields compute_neighborhoods_apply neighborhood_def in_bounds_def upto.simps)
  show ?thesis using enforce55_arrests_flagged[OF i, of 2] i c by (simp add: share55_fields)
qed


text \<open>C26. The cached grievance of \<open>model_v5.5_lwz copy.py\<close> is sound: once cached,
  \<open>determine_behavior\<close> decides exactly by the rule of the other variants,
  \<open>hardship * (1 - legitimacy) - risk_aversion * p > 0.1\<close>; turning active sets the
  cell's \<open>'active_agents'\<close> flag, while turning quiet leaves every flag as it was.\<close>

theorem determine_behavior55_rule:
  assumes "inv55 s" and "i < length (f_entities s)" and "grievance_cache (f_entities s ! i) \<noteq> None"
  shows "(active (f_entities (determine_behavior55 s i) ! i) \<longleftrightarrow>
      activates (grievance (hardship (f_entities s ! i)) (f_legitimacy s)) (risk_aversion (f_entities s ! i))
        (estimate55 s (position (f_entities s ! i)))) \<and>
    (active (f_entities (determine_behavior55 s i) ! i) \<longrightarrow>
      fl_active (f_grid (determine_behavior55 s i) (position (f_entities s ! i)))) \<and>
    (\<not> active (f_entities (determine_behavior55 s i) ! i) \<longrightarrow> f_grid (determine_behavior55 s i) = f_grid s)"
proof -
  have g: "the (grievance_cache (f_entities s ! i)) = grievance (hardship (f_entities s ! i)) (f_legitimacy s)"
    using inv55_nth[OF assms(1,2)] assms(3) by auto
  then show ?thesis
    using assms(2) by (simp add: determine_behavior55_def Let_def activates_def)
qed

theorem determine_behavior55_rule_witness:
  "inv55 (share55\<lparr>f_entities := (f_entities share55)[0 := (f_entities share55 ! 0)\<lparr>grievance_cache := Some 0.07\<rparr>]\<rparr>) \<and>
   \<not> active (f_entities (determine_behavior55
       (share55\<lparr>f_entities := (f_entities share55)[0 := (f_entities share55 ! 0)\<lparr>grievance_cache := Some 0.07\<rparr>]\<rparr>) 0) ! 0)"
proof -
  let ?s = "share55\<lparr>f_entities := (f_entities share55)[0 := (f_entities share55 ! 0)\<lparr>grievance_cache := Some 0.07\<rparr>]\<rparr>"
  have i: "inv55 ?s"
    by (simp add: inv55_def agents_first55_def cops_free55_def cache_sound55_def share55_fields less_Suc_eq grievance_def)
  have "\<not> activates (grievance (hardship (f_entities ?s ! 0)) (f_legitimacy ?s)) (risk_aversion (f_entities ?s ! 0))
        (estimate55 ?s (position (f_entities ?s ! 0)))"
    by (simp add: share55_fields activates_def grievance_def estimate55_def compute_neighborhoods_apply
        neighborhood_def in_bounds_def upto.simps arrest_probability_def)
  then show ?thesis
    using determine_behavior55_rule[OF i, of 0] i by (simp add: share55_fields)
qed

end
