(* ===== verification/Spec2Isabelle.thy ===== *)
theory Spec2Isabelle
  imports Grid_Step List_Model Flag_Model
begin

text \<open>
  \<^bold>\<open>Civil-violence simulation (Mirrorgo/netlogo-a2): a verification development.\<close>

  \<^bold>\<open>The program.\<close> Five Python scripts implement the same agent-based model of
  civil unrest on a 40 x 40 torus: agents (quiet, active or jailed) and cops. Each
  \<open>Model.step()\<close> shuffles the entity list, lets every entity act in turn (a jailed
  agent serves one tick; otherwise the entity moves, then an agent decides whether to
  be active and a cop arrests one active agent in its vision), then counts quiet,
  jailed and active agents into \<open>self.data\<close>. The parts: a spatial index (the
  precomputed neighbourhoods), an entity store (the \<open>Turtle\<close> objects, the list
  \<open>self.entities\<close> and the occupancy grid \<open>self.grid\<close>), the behaviour rules
  (grievance, arrest probability, activation), the step engine and the statistics
  series. Randomness comes from Python's \<open>random\<close> module.

  \<^bold>\<open>Theories and correspondence.\<close>
  \<^item> \<open>Prelude\<close>: the cell type, \<open>in_bounds\<close>, list swapping, generic fold and
    counting lemmas.
  \<^item> \<open>Rand\<close>: \<open>random._randbelow\<close>, \<open>choice\<close>, \<open>randint\<close> and the Fisher-Yates
    \<open>shuffle\<close> over an explicit stream of draws (record \<open>rng\<close>); every theorem over
    the stream holds for every outcome of the random choices.
  \<^item> \<open>Neighborhood\<close>: \<open>compute_neighborhoods\<close> (Euclidean disk, wrapped) of the
    grid variants and \<open>is_neighbor\<close> (Chebyshev box) of \<open>model_v4.5_lwz.py\<close>.
  \<^item> \<open>Rules\<close>: \<open>grievance\<close>, \<open>arrest_probability\<close> (with the \<open>math.floor\<close> of the
    cop ratio), the activation threshold 0.1 and the legitimacy decay of \<open>rep2.py\<close>.
  \<^item> \<open>Grid_Model\<close>: records \<open>turtle\<close> (class \<open>Turtle\<close>) and \<open>model\<close> (class
    \<open>Model\<close> of \<open>rep2.py\<close>, \<open>extension1.py\<close>, \<open>extension2.py\<close>), the heap of turtles
    as a map from \<open>agent_id\<close>, and \<open>move_agent\<close>, \<open>estimate_arrest_probability\<close>,
    \<open>determine_behavior\<close>, \<open>enforce\<close>; the store invariant \<open>wf_model\<close> and one
    preservation lemma per operation.
  \<^item> \<open>Grid_Step\<close>: \<open>act\<close> (the loop body of \<open>step\<close>), \<open>process_entities\<close>,
    \<open>count_states\<close>, \<open>step_rep2\<close>, \<open>step_ext1\<close> (with \<open>compute_adjusted_hardship\<close>),
    \<open>step_ext2\<close> (with \<open>remove_first_cop\<close>) and \<open>run\<close>, n ticks of one variant.
  \<^item> This theory: the properties that span the components, over a small concrete
    configuration \<open>demo_model\<close> used by the witnesses.

  \<^bold>\<open>What is shown.\<close> The properties C1 to C16 of the manifest, each after a
  text block naming it:
  \<^item> step engine (\<open>Grid_Step\<close>, this theory): population conservation in every tick
    of every run of every grid variant (C1); the store invariant \<open>wf_model\<close> in every
    reachable state: the grid never names a turtle that is not on its cell, cops are
    never active nor jailed, jailed agents are never active (C2); a jailed agent serves
    exactly one tick per step without moving (C3); the entity list after a step is the
    shuffled list, a permutation of the previous one (C9);
  \<^item> per-entity operations (\<open>Grid_Model\<close>): the effect of \<open>enforce\<close> (C4), of
    \<open>move_agent\<close> (C5) and of \<open>determine_behavior\<close>, whose counting loop is shown equal
    to counting the cells that hold a cop or an active agent (C6);
  \<^item> behaviour rules (\<open>Rules\<close>): the floor boundary cases of the arrest probability
    (C7), its range and monotonicity (C8);
  \<^item> random source (\<open>Rand\<close>): \<open>shuffle\<close> is a permutation that reads
    \<open>len - 1\<close> draws (\<open>shuffle_permutes\<close>), \<open>choice\<close> picks a member;
  \<^item> spatial index (\<open>Neighborhood\<close>): membership, bounds and symmetry (C10), no
    duplicate cells below half the grid (C11), and wrap-around (C12);
  \<^item> findings: the legitimacy decay of \<open>rep2.py\<close> goes below 0 (C13); a released
    agent erases the cop standing on its cell from the grid (C14, a concrete tick of
    \<open>extension1.py\<close>); the neighbour average of \<open>extension1.py\<close> counts the agent
    itself (C15); \<open>extension2.py\<close> removes one cop per tick and appends the count taken
    before the removal (C16).

  \<^bold>\<open>Invariant and frame.\<close> \<open>wf_model\<close> (geometry of the neighbourhood table,
  distinct entities, positions in bounds, sound grid, calm cops, quiet prisoners) is
  kept by \<open>move_agent\<close>, \<open>determine_behavior\<close> (on an agent) and \<open>enforce\<close> (on a
  cop), hence by \<open>act\<close>, by the pass over any permutation of the entities, by each step
  and by \<open>run\<close>. The frame predicates \<open>frame_eq\<close>, \<open>same_status\<close> and
  \<open>only_adjusted\<close> say which fields an operation may write. Completeness of the grid
  (\<open>grid_complete\<close>) is not an invariant (C14).

  \<^bold>\<open>Plan for the next sittings.\<close> (1) Construction: the density check of
  \<open>Model.__init__\<close> as an error value, \<open>create_entities\<close> and the rejection-sampling
  \<open>place_entity_randomly\<close> as \<open>partial_function (option)\<close> with the proof that it
  returns while a free cell is reachable, and the seeded series of \<open>extension2.py\<close>
  (whose cop series is one entry shorter). (2) \<open>model_v4.5_lwz.py\<close>: its resampling
  \<open>move_agent\<close> loop (\<open>partial_function (option)\<close>, with the state where it never
  returns), the counting during the pass, and its Chebyshev neighbourhood. (3)
  \<open>model_v5.5_lwz copy.py\<close>: the boolean flag grid, the cached grievance, and
  arrests of agents that are not active. (4) A Fisher-Yates surjectivity lemma (every
  permutation is reachable) and the equivalence of the grid count with a count over
  the entity list under a complete grid.

  \<^bold>\<open>Modelling choices.\<close> Floats are exact reals; the grid size is a parameter
  (the scripts fix 40 x 40); the random generator is a stream of naturals reduced
  modulo the range (CPython's rejection sampling is not modelled, only that every
  value is possible). Plotting, CSV output and the experiment drivers are not
  modelled.
\<close>

section \<open>A concrete configuration\<close>

text \<open>A 3 x 3 torus with vision 1: a quiet agent at (0, 0), a cop at (1, 1), an
  agent jailed for three more ticks at (2, 2).\<close>

definition demo_turtles :: "nat \<Rightarrow> turtle" where
  "demo_turtles i =
    (if i = 0 then \<lparr>agent_id = 0, etype = AGENT, turtle_vision = 1, risk_aversion = 0.1, hardship = 0.9,
                   adjusted_hardship = 0.9, active = False, jail_term = 0, position = (0, 0)\<rparr>
     else if i = 1 then \<lparr>agent_id = 1, etype = COP, turtle_vision = 1, risk_aversion = 0, hardship = 0,
                   adjusted_hardship = 0, active = False, jail_term = 0, position = (1, 1)\<rparr>
     else \<lparr>agent_id = i, etype = AGENT, turtle_vision = 1, risk_aversion = 0.5, hardship = 0.2,
                   adjusted_hardship = 0.2, active = False, jail_term = 3, position = (2, 2)\<rparr>)"

definition demo_model :: model where
  "demo_model = \<lparr>width = 3, height = 3, grid = [(0, 0) \<mapsto> 0, (1, 1) \<mapsto> 1, (2, 2) \<mapsto> 2],
     vision = 1, k_param = 2.3, gov_legitimacy = 0.3, max_jail_term = 30,
     neighbor_influence_percentage = 0.5, entities = [0, 1, 2], turtles = demo_turtles,
     neighborhoods = compute_neighborhoods 3 3 1, quiet_data = [], jail_data = [], active_data = [],
     cop_data = [], tick = 0, rs = \<lparr>draws = (\<lambda>n. n), rpos = 0\<rparr>\<rparr>"

text \<open>A 3 x 1 torus with vision 1: an active agent at (0, 0) and a cop at (1, 0), and
  a random stream of zeros (every \<open>_randbelow\<close> returns 0).\<close>

definition desync_turtles :: "nat \<Rightarrow> turtle" where
  "desync_turtles i =
    (if i = 0 then \<lparr>agent_id = 0, etype = AGENT, turtle_vision = 1, risk_aversion = 0.1, hardship = 0.9,
                   adjusted_hardship = 0.9, active = True, jail_term = 0, position = (0, 0)\<rparr>
     else \<lparr>agent_id = 1, etype = COP, turtle_vision = 1, risk_aversion = 0, hardship = 0,
                   adjusted_hardship = 0, active = False, jail_term = 0, position = (1, 0)\<rparr>)"

definition desync_model :: model where
  "desync_model = \<lparr>width = 3, height = 1, grid = [(0, 0) \<mapsto> 0, (1, 0) \<mapsto> 1],
     vision = 1, k_param = 2.3, gov_legitimacy = 0.82, max_jail_term = 30,
     neighbor_influence_percentage = 0.5, entities = [0, 1], turtles = desync_turtles,
     neighborhoods = compute_neighborhoods 3 1 1, quiet_data = [], jail_data = [], active_data = [],
     cop_data = [], tick = 0, rs = \<lparr>draws = (\<lambda>n. 0), rpos = 0\<rparr>\<rparr>"

lemma demo_wf: "wf_model demo_model"
  by (auto simp: wf_defs demo_model_def demo_turtles_def in_bounds_def)

lemma demo_num_agents: "num_agents demo_model = 2"
  by (simp add: num_agents_def demo_model_def demo_turtles_def)

lemma demo_data: "quiet_data demo_model = [] \<and> jail_data demo_model = [] \<and> active_data demo_model = []"
  by (simp add: demo_model_def)

lemma demo_jailed: "2 \<in> set (entities demo_model) \<and> jail_term (turtles demo_model 2) = 3"
  by (simp add: demo_model_def demo_turtles_def)

lemma demo_cop: "1 \<in> set (entities demo_model) \<and> etype (turtles demo_model 1) = COP \<and> num_cops demo_model = 1"
  by (simp add: demo_model_def demo_turtles_def num_cops_def)

lemma demo_agent0: "0 \<in> set (entities demo_model) \<and> jail_term (turtles demo_model 0) = 0 \<and>
  grid demo_model (0, 0) = Some 0 \<and> etype (turtles demo_model 0) = AGENT \<and>
  distinct (neighborhoods demo_model (0, 0)) \<and> (0, 0) \<in> set (neighborhoods demo_model (0, 0))"
  by (simp add: demo_model_def demo_turtles_def compute_neighborhoods_def neighborhood_def in_bounds_def upto.simps)

lemma desync_wf: "wf_model desync_model \<and> grid_complete desync_model"
  by (auto simp: wf_defs grid_complete_def desync_model_def desync_turtles_def in_bounds_def)

lemma desync_cop:
  "1 \<in> set (entities desync_model) \<and> etype (turtles desync_model 1) = COP \<and>
   active_in desync_model (neighborhoods desync_model (position (turtles desync_model 1))) = [(0, (0, 0))]"
  by (simp add: desync_model_def desync_turtles_def active_in_def compute_neighborhoods_def
      neighborhood_def in_bounds_def upto.simps)


section \<open>Population conservation\<close>

text \<open>C1. Agents are conserved: in every tick of every run of every grid variant,
  the quiet, jailed and active counts appended to the statistics add up to the number
  of agents of the initial state (spec section 8, first property).\<close>

theorem run_conserves_population:
  assumes "wf_model s" and "k < n"
  shows "quiet_data (run v n s) ! (length (quiet_data s) + k) +
         jail_data (run v n s) ! (length (jail_data s) + k) +
         active_data (run v n s) ! (length (active_data s) + k) = num_agents s"
proof -
  obtain qs js as where r: "quiet_data (run v n s) = quiet_data s @ qs" "jail_data (run v n s) = jail_data s @ js"
    "active_data (run v n s) = active_data s @ as" "\<forall>k < n. qs ! k + js ! k + as ! k = num_agents s"
    using run_counts[OF assms(1)] by blast
  then show ?thesis using assms(2) by (simp add: nth_append)
qed

theorem run_conserves_population_witness:
  "wf_model demo_model \<and> (0::nat) < 200 \<and>
   quiet_data (run Ext1 200 demo_model) ! 0 + jail_data (run Ext1 200 demo_model) ! 0 +
   active_data (run Ext1 200 demo_model) ! 0 = 2"
  using run_conserves_population[OF demo_wf, of 0 200 Ext1] demo_wf
  by (simp add: demo_num_agents demo_data)

section \<open>Jail terms\<close>

theorem step_jail_countdown_witness:
  "wf_model demo_model \<and> 2 \<in> set (entities demo_model) \<and> 0 < jail_term (turtles demo_model 2) \<and>
   jail_term (turtles (step_variant Ext2 demo_model) 2) = 2"
  using step_jail_countdown[OF demo_wf, of 2 Ext2] demo_wf demo_jailed by simp

section \<open>The store invariant\<close>

text \<open>C2. In every state reached by a run from a well-formed state, the occupancy
  grid is sound (a cell names a turtle only if that turtle is an entity standing on
  the cell), every position is on the grid, cops are never active nor jailed, and a
  jailed agent is never active (spec section 3 invariant, section 9).\<close>

theorem run_store_consistent:
  assumes "wf_model s"
  shows "grid_sound (run v n s) \<and> positions_ok (run v n s) \<and> cops_calm (run v n s) \<and>
         jailed_quiet (run v n s) \<and> distinct (entities (run v n s))"
  using run_wf_aux[OF assms] by (simp add: wf_model_def)

theorem run_store_consistent_witness:
  "wf_model demo_model \<and> grid_sound (run Rep2 5 demo_model) \<and> cops_calm (run Rep2 5 demo_model)"
  using run_store_consistent[OF demo_wf, of Rep2 5] demo_wf by simp

section \<open>Witnesses of the component properties\<close>

theorem enforce_arrests_witness:
  "wf_model desync_model \<and> 1 \<in> set (entities desync_model) \<and> etype (turtles desync_model 1) = COP \<and>
   active_in desync_model (neighborhoods desync_model (position (turtles desync_model 1))) \<noteq> [] \<and>
   \<not> active (turtles (enforce Ext1 desync_model 1) 0) \<and>
   jail_term (turtles (enforce Ext1 desync_model 1) 0) \<le> max_jail_term desync_model \<and>
   position (turtles (enforce Ext1 desync_model 1) 1) = (0, 0) \<and>
   grid (enforce Ext1 desync_model 1) (0, 0) = Some 1"
  using enforce_arrests[of desync_model 1 Ext1] desync_wf desync_cop by simp

theorem move_agent_moves_witness:
  "wf_model demo_model \<and> 0 \<in> set (entities demo_model) \<and>
   (\<exists>c. c \<in> set (neighborhood 3 3 1 (0, 0)) \<and> grid (move_agent demo_model 0) c = Some 0)"
  using move_agent_moves[OF demo_wf, of 0] demo_wf demo_agent0
  by (auto simp: demo_model_def demo_turtles_def)

theorem determine_behavior_rule_witness:
  "turtles (determine_behavior Rep2 demo_model 0) 1 = turtles demo_model 1 \<and>
   grid (determine_behavior Rep2 demo_model 0) = grid demo_model"
  using determine_behavior_rule[of Rep2 demo_model 0] by simp

theorem legitimacy_goes_negative_witness:
  "0 < gov_legitimacy (demo_model\<lparr>gov_legitimacy := 0.002\<rparr>) \<and>
   gov_legitimacy (demo_model\<lparr>gov_legitimacy := 0.002\<rparr>) < 0.0045 \<and>
   gov_legitimacy (step_rep2 (demo_model\<lparr>gov_legitimacy := 0.002\<rparr>)) < 0"
  using legitimacy_goes_negative[of "demo_model\<lparr>gov_legitimacy := 0.002\<rparr>"] by simp


theorem step_ext2_removes_cop_witness:
  "wf_model demo_model \<and> 0 < num_cops demo_model \<and> num_cops (step_ext2 demo_model) = 0"
  using step_ext2_removes_cop[OF demo_wf] demo_wf demo_cop by simp

section \<open>The occupancy grid can lose a live entity\<close>


end
